theory Spec2Isabelle
  imports Main "HOL-Library.Word"
begin

section \<open>gbak: backing up a GitHub account, as a state-passing model\<close>

text \<open>
  The program is one Python module, \<^verbatim>\<open>gbak.py\<close>: three helper functions
  (\<^verbatim>\<open>signal_handler\<close>, \<^verbatim>\<open>rate_limit_check\<close>, \<^verbatim>\<open>make_request\<close>) and the
  \<^verbatim>\<open>__main__\<close> block. Each becomes a function from a world to an outcome and a new
  world. The world holds the global flag \<^verbatim>\<open>SIGNINT\<close>, the files written so far and the
  chronological list of the effects performed. Everything the program cannot decide by
  itself (the replies of the network, the clock, the file system, the delivery of the
  interrupt signal) is read from an environment record.

  \<^verbatim>\<open>exit(n)\<close> and an exception that no handler catches both end the run: they are
  values of the type \<open>halt\<close>, and every function passes them on unchanged, as the
  interpreter unwinds the stack.

  Not modelled: argument parsing, the spinner, and the text of log lines (a log line is a
  constructor carrying the values the line is formatted from).
\<close>

subsection \<open>Python values\<close>

datatype exc =
  KeyError | IndexError | TypeError | ValueError | JSONDecodeError | OSError
  | RequestException

datatype halt = SysExit int | Uncaught exc

datatype 'a res = Ok 'a | Stop halt

type_synonym bytes = "8 word list"

text \<open>
  What \<^verbatim>\<open>Response.json()\<close> returns. An object is the list of its items, keys distinct.
  Numbers, booleans and null are left out: the program reads only names.
\<close>

datatype json = JStr string | JArr "json list" | JObj "(string \<times> json) list"

text \<open>\<^verbatim>\<open>x[key]\<close> with a string key.\<close>

fun getitem_str :: "json \<Rightarrow> string \<Rightarrow> exc + json" where
  "getitem_str (JObj kvs) k = (case map_of kvs k of None \<Rightarrow> Inl KeyError | Some v \<Rightarrow> Inr v)"
| "getitem_str (JArr xs) k = Inl TypeError"
| "getitem_str (JStr s) k = Inl TypeError"

text \<open>\<^verbatim>\<open>x[0]\<close>. The keys of a decoded JSON object are strings, so the key 0 is never there.\<close>

fun getitem_0 :: "json \<Rightarrow> exc + json" where
  "getitem_0 (JArr []) = Inl IndexError"
| "getitem_0 (JArr (x # xs)) = Inr x"
| "getitem_0 (JObj kvs) = Inl KeyError"
| "getitem_0 (JStr []) = Inl IndexError"
| "getitem_0 (JStr (c # cs)) = Inr (JStr [c])"

text \<open>\<^verbatim>\<open>for x in v\<close>: the elements of a list, the keys of a dict, the characters of a string.\<close>

fun iter :: "json \<Rightarrow> json list" where
  "iter (JArr xs) = xs"
| "iter (JObj kvs) = map (\<lambda>kv. JStr (fst kv)) kvs"
| "iter (JStr s) = map (\<lambda>c. JStr [c]) s"

subsection \<open>The environment and the world\<close>

text \<open>
  The header \<^verbatim>\<open>X-RateLimit-Remaining\<close> of a response, by what
  \<^verbatim>\<open>int(r.headers['X-RateLimit-Remaining'])\<close> does with it: the header is absent, or
  \<^verbatim>\<open>int\<close> raises ValueError, or it returns a number.
\<close>

datatype quota = NoQuotaHeader | QuotaUnparsable | Quota int

record response =
  status_code :: nat
  remaining :: quota
  body_text :: string
  content :: bytes
  json :: "json option"  \<comment> \<open>\<open>None\<close>: \<^verbatim>\<open>.json()\<close> raises JSONDecodeError\<close>

text \<open>
  What \<^verbatim>\<open>requests.get\<close> does: it returns a response or raises. \<open>OtherRequestError\<close>
  stands for the exceptions of \<^verbatim>\<open>requests\<close> that \<^verbatim>\<open>make_request\<close> has no handler for.
\<close>

datatype reply =
  Response response | ConnectionError | Timeout | TooManyRedirects | OtherRequestError

datatype io = IoOk | OpenError | WriteError nat

datatype logmsg =
  InvalidDestination
  | ApproachingRateLimit
  | FailedToConnect string
  | FailedToConnectPlain
  | RequestTimedOut
  | TooManyRedirectsMsg
  | InvalidResponse json
  | StartingBackup string bool string
  | FailedToCreateDirectory string
  | BackupCompleted string nat string string string

datatype event =
  Request string "(string \<times> string) list"
  | Sleep
  | ClockRead
  | Makedirs string
  | Write string bytes
  | Log logmsg

text \<open>
  The environment. The index of \<open>sigint_at\<close>, \<open>http_get\<close>, \<open>now\<close>, \<open>makedirs_ok\<close> and
  \<open>file_write\<close> is the number of blocking operations performed so far, so that each may
  answer differently at different moments of the run. \<open>sigint_at k\<close> says that SIGINT is
  delivered while operation number \<open>k\<close> runs. \<open>py_str\<close> is Python's \<^verbatim>\<open>str()\<close> on a
  value that is not a string.
\<close>

record env =
  sigint_at :: "nat \<Rightarrow> bool"
  http_get :: "nat \<Rightarrow> string \<Rightarrow> (string \<times> string) list \<Rightarrow> reply"
  now :: "nat \<Rightarrow> string"
  isdir :: "string \<Rightarrow> bool"
  makedirs_ok :: "nat \<Rightarrow> string \<Rightarrow> bool"
  file_write :: "nat \<Rightarrow> string \<Rightarrow> io"
  py_str :: "json \<Rightarrow> string"

record world =
  SIGNINT :: bool
  tick :: nat
  trace :: "event list"
  files :: "string \<rightharpoonup> bytes"

text \<open>The parsed command line and \<^verbatim>\<open>os.environ\<close>.\<close>

record config =
  user :: string
  dest_arg :: string
  all_branches :: bool
  tar_gz :: bool
  token :: "string option"

definition RATE_LIMIT_WAIT_TIME_S :: nat where
  "RATE_LIMIT_WAIT_TIME_S = 10"

definition RATE_LIMIT_WARNING_THRESHOLD :: int where
  "RATE_LIMIT_WARNING_THRESHOLD = 10"

subsection \<open>Primitive steps\<close>

definition signal_handler :: "world \<Rightarrow> world" where
  "signal_handler w = w\<lparr>SIGNINT := True\<rparr>"

text \<open>
  One blocking operation goes by: the handler runs if the signal is delivered meanwhile.
\<close>

definition advance :: "env \<Rightarrow> world \<Rightarrow> world" where
  "advance e w =
     (if sigint_at e (tick w) then signal_handler w else w)\<lparr>tick := Suc (tick w)\<rparr>"

definition emit :: "event \<Rightarrow> world \<Rightarrow> world" where
  "emit ev w = w\<lparr>trace := trace w @ [ev]\<rparr>"

definition sleep :: "env \<Rightarrow> world \<Rightarrow> world" where
  "sleep e w = advance e (emit Sleep w)"

definition clock_now :: "env \<Rightarrow> world \<Rightarrow> string \<times> world" where
  "clock_now e w = (now e (tick w), advance e (emit ClockRead w))"

text \<open>
  \<^verbatim>\<open>with open(path, 'wb') as f: bytes_written = f.write(data)\<close>. Opening truncates the
  file; a failed write leaves a prefix of the data.
\<close>

definition write_file :: "env \<Rightarrow> string \<Rightarrow> bytes \<Rightarrow> world \<Rightarrow> nat res \<times> world" where
  "write_file e path data w =
     (case file_write e (tick w) path of
        OpenError \<Rightarrow> (Stop (Uncaught OSError), advance e w)
      | WriteError k \<Rightarrow>
          (Stop (Uncaught OSError),
           advance e (w\<lparr>files := (files w)(path \<mapsto> take k data)\<rparr>))
      | IoOk \<Rightarrow>
          (Ok (length data),
           advance e (emit (Write path data) (w\<lparr>files := (files w)(path \<mapsto> data)\<rparr>))))"

subsection \<open>\<^verbatim>\<open>rate_limit_check\<close>\<close>

text \<open>
  \<^verbatim>\<open>for i in range(0, wait_time_s): if SIGNINT: exit(0); time.sleep(1)\<close>, by the number
  of iterations left.
\<close>

fun wait_loop :: "env \<Rightarrow> nat \<Rightarrow> world \<Rightarrow> unit res \<times> world" where
  "wait_loop e 0 w = (Ok (), w)"
| "wait_loop e (Suc n) w =
     (if SIGNINT w then (Stop (SysExit 0), w) else wait_loop e n (sleep e w))"

definition rate_limit_check :: "env \<Rightarrow> response \<Rightarrow> world \<Rightarrow> unit res \<times> world" where
  "rate_limit_check e r w =
     (case remaining r of
        NoQuotaHeader \<Rightarrow> (Ok (), w)
      | QuotaUnparsable \<Rightarrow> (Stop (Uncaught ValueError), w)
      | Quota n \<Rightarrow>
          if n < RATE_LIMIT_WARNING_THRESHOLD
          then wait_loop e RATE_LIMIT_WAIT_TIME_S (emit (Log ApproachingRateLimit) w)
          else (Ok (), w))"

subsection \<open>\<^verbatim>\<open>make_request\<close>\<close>

text \<open>
  \<^verbatim>\<open>raise_for_status\<close> raises HTTPError for the status codes 400 to 599. The four
  handlers log and \<^verbatim>\<open>exit(-1)\<close>; \<^verbatim>\<open>SystemExit\<close> and ValueError from
  \<^verbatim>\<open>rate_limit_check\<close> match none of them.
\<close>

definition make_request ::
  "env \<Rightarrow> string \<Rightarrow> (string \<times> string) list \<Rightarrow> world \<Rightarrow> response res \<times> world" where
  "make_request e url headers w =
     (let w1 = advance e (emit (Request url headers) w) in
      case http_get e (tick w) url headers of
        ConnectionError \<Rightarrow> (Stop (SysExit (- 1)), emit (Log FailedToConnectPlain) w1)
      | Timeout \<Rightarrow> (Stop (SysExit (- 1)), emit (Log RequestTimedOut) w1)
      | TooManyRedirects \<Rightarrow> (Stop (SysExit (- 1)), emit (Log TooManyRedirectsMsg) w1)
      | OtherRequestError \<Rightarrow> (Stop (Uncaught RequestException), w1)
      | Response r \<Rightarrow>
          (case rate_limit_check e r w1 of
             (Stop h, w2) \<Rightarrow> (Stop h, w2)
           | (Ok u, w2) \<Rightarrow>
               if 400 \<le> status_code r \<and> status_code r < 600
               then (Stop (SysExit (- 1)), emit (Log (FailedToConnect (body_text r))) w2)
               else (Ok r, w2)))"

subsection \<open>The \<^verbatim>\<open>__main__\<close> block\<close>

definition file_extension :: "config \<Rightarrow> string" where
  "file_extension c = (if tar_gz c then ''tar.gz'' else ''zip'')"

definition endswith_slash :: "string \<Rightarrow> bool" where
  "endswith_slash s = (case rev s of [] \<Rightarrow> False | c # cs \<Rightarrow> c = CHR ''/'')"

definition dest :: "config \<Rightarrow> string" where
  "dest c = (if endswith_slash (dest_arg c) then dest_arg c else dest_arg c @ ''/'')"

definition headers_of :: "config \<Rightarrow> (string \<times> string) list" where
  "headers_of c =
     (case token c of None \<Rightarrow> [] | Some t \<Rightarrow> [(''Authorization'', ''token '' @ t)])"

definition authenticated :: "config \<Rightarrow> bool" where
  "authenticated c = (token c \<noteq> None)"

text \<open>A value inside an f-string with no format specification.\<close>

definition str_of :: "env \<Rightarrow> json \<Rightarrow> string" where
  "str_of e v = (case v of JStr s \<Rightarrow> s | _ \<Rightarrow> py_str e v)"

definition search_url :: "string \<Rightarrow> string" where
  "search_url u = ''https://api.github.com/search/repositories?q=user:'' @ u"

definition branches_url :: "string \<Rightarrow> string \<Rightarrow> string" where
  "branches_url u repo_name = ''https://api.github.com/repos/'' @ u @ ''/'' @ repo_name @ ''/branches''"

definition archive_url :: "string \<Rightarrow> string \<Rightarrow> string \<Rightarrow> string \<Rightarrow> string" where
  "archive_url u repo_name branch ext =
     ''https://github.com/'' @ u @ ''/'' @ repo_name @ ''/archive/refs/heads/'' @ branch @ ''.'' @ ext"

text \<open>\<^verbatim>\<open>f'{dest}{timestamp}/{repo_name}_{branch}.{file_extension}'\<close>\<close>

definition archive_path :: "string \<Rightarrow> string \<Rightarrow> string \<Rightarrow> string \<Rightarrow> string \<Rightarrow> string" where
  "archive_path d ts repo_name branch ext = d @ ts @ ''/'' @ repo_name @ ''_'' @ branch @ ''.'' @ ext"

definition ljust :: "nat \<Rightarrow> string \<Rightarrow> string" where
  "ljust n s = s @ replicate (n - length s) CHR '' ''"

text \<open>
  \<^verbatim>\<open>f'{message:8s}  {name:20s} {("[" + branch+ "]"):20s}'\<close>: the format \<^verbatim>\<open>20s\<close> on a
  list or a dict, and \<^verbatim>\<open>"[" + branch\<close> on one, raise TypeError.
\<close>

fun log_fmt :: "string \<Rightarrow> json \<Rightarrow> json \<Rightarrow> exc + string" where
  "log_fmt message (JStr name) (JStr branch) =
     Inr (ljust 8 message @ ''  '' @ ljust 20 name @ '' '' @ ljust 20 (''['' @ branch @ '']''))"
| "log_fmt message name branch = Inl TypeError"

text \<open>The body of the inner loop, after the test of \<^verbatim>\<open>SIGNINT\<close>.\<close>

definition fetch_branch ::
  "env \<Rightarrow> config \<Rightarrow> string \<Rightarrow> json \<Rightarrow> json \<Rightarrow> nat \<Rightarrow> world \<Rightarrow> nat res \<times> world" where
  "fetch_branch e c ts repo_name branch bytes_total w =
     (case log_fmt ''Fetching'' repo_name branch of
        Inl x \<Rightarrow> (Stop (Uncaught x), w)
      | Inr t \<Rightarrow>
          (case make_request e
                  (archive_url (user c) (str_of e repo_name) (str_of e branch) (file_extension c))
                  (headers_of c) w of
             (Stop h, w1) \<Rightarrow> (Stop h, w1)
           | (Ok r, w1) \<Rightarrow>
               (case write_file e
                       (archive_path (dest c) ts (str_of e repo_name) (str_of e branch)
                          (file_extension c))
                       (content r) w1 of
                  (Stop h, w2) \<Rightarrow> (Stop h, w2)
                | (Ok bytes_written, w2) \<Rightarrow> (Ok (bytes_total + bytes_written), w2))))"

text \<open>\<^verbatim>\<open>for branch in branches: if SIGNINT: break; ...\<close>\<close>

fun fetch_branches ::
  "env \<Rightarrow> config \<Rightarrow> string \<Rightarrow> json \<Rightarrow> json list \<Rightarrow> nat \<Rightarrow> world \<Rightarrow> nat res \<times> world" where
  "fetch_branches e c ts repo_name [] bytes_total w = (Ok bytes_total, w)"
| "fetch_branches e c ts repo_name (branch # rest) bytes_total w =
     (if SIGNINT w then (Ok bytes_total, w)
      else case fetch_branch e c ts repo_name branch bytes_total w of
             (Stop h, w1) \<Rightarrow> (Stop h, w1)
           | (Ok bytes_total1, w1) \<Rightarrow> fetch_branches e c ts repo_name rest bytes_total1 w1)"

text \<open>\<^verbatim>\<open>[branch['name'] for branch in ...]\<close>\<close>

fun branch_names :: "json list \<Rightarrow> exc + json list" where
  "branch_names [] = Inr []"
| "branch_names (b # bs) =
     (case getitem_str b ''name'' of
        Inl x \<Rightarrow> Inl x
      | Inr n \<Rightarrow> (case branch_names bs of Inl x \<Rightarrow> Inl x | Inr ns \<Rightarrow> Inr (n # ns)))"

text \<open>The body of the outer loop.\<close>

definition process_repo ::
  "env \<Rightarrow> config \<Rightarrow> string \<Rightarrow> json \<Rightarrow> nat \<Rightarrow> world \<Rightarrow> nat res \<times> world" where
  "process_repo e c ts repo bytes_total w =
     (case getitem_str repo ''name'' of
        Inl x \<Rightarrow> (Stop (Uncaught x), w)
      | Inr repo_name \<Rightarrow>
          (case getitem_str repo ''default_branch'' of
             Inl x \<Rightarrow> (Stop (Uncaught x), w)
           | Inr default_branch \<Rightarrow>
               if all_branches c
               then (case make_request e (branches_url (user c) (str_of e repo_name))
                            (headers_of c) w of
                       (Stop h, w1) \<Rightarrow> (Stop h, w1)
                     | (Ok r, w1) \<Rightarrow>
                         (case json r of
                            None \<Rightarrow> (Stop (Uncaught JSONDecodeError), w1)
                          | Some j \<Rightarrow>
                              (case branch_names (iter j) of
                                 Inl x \<Rightarrow> (Stop (Uncaught x), w1)
                               | Inr branches \<Rightarrow>
                                   fetch_branches e c ts repo_name branches bytes_total w1)))
               else fetch_branches e c ts repo_name [default_branch] bytes_total w))"

text \<open>\<^verbatim>\<open>for repo in repos: ...\<close>\<close>

fun fetch_repos ::
  "env \<Rightarrow> config \<Rightarrow> string \<Rightarrow> json list \<Rightarrow> nat \<Rightarrow> world \<Rightarrow> nat res \<times> world" where
  "fetch_repos e c ts [] bytes_total w = (Ok bytes_total, w)"
| "fetch_repos e c ts (repo # rest) bytes_total w =
     (case process_repo e c ts repo bytes_total w of
        (Stop h, w1) \<Rightarrow> (Stop h, w1)
      | (Ok bytes_total1, w1) \<Rightarrow> fetch_repos e c ts rest bytes_total1 w1)"

text \<open>
  The last statement: the clock is read twice, for the completion time and for the
  elapsed time.
\<close>

definition finalize :: "env \<Rightarrow> config \<Rightarrow> string \<Rightarrow> nat \<Rightarrow> world \<Rightarrow> world" where
  "finalize e c ts bytes_total w =
     (let (t1, w1) = clock_now e w;
          (t2, w2) = clock_now e w1
      in emit (Log (BackupCompleted t1 bytes_total (dest c) t2 ts)) w2)"

text \<open>\<^verbatim>\<open>os.makedirs(f"{dest}{timestamp}", exist_ok=False)\<close> and the loops after it.\<close>

definition backup :: "env \<Rightarrow> config \<Rightarrow> string \<Rightarrow> json \<Rightarrow> world \<Rightarrow> unit res \<times> world" where
  "backup e c ts repos w =
     (if \<not> makedirs_ok e (tick w) (dest c @ ts)
      then (Stop (SysExit (- 1)),
            emit (Log (FailedToCreateDirectory (dest c @ ''/'' @ ts))) (advance e w))
      else (case fetch_repos e c ts (iter repos) 0
                   (advance e (emit (Makedirs (dest c @ ts)) w)) of
              (Stop h, w1) \<Rightarrow> (Stop h, w1)
            | (Ok bytes_total, w1) \<Rightarrow> (Ok (), finalize e c ts bytes_total w1)))"

text \<open>
  \<^verbatim>\<open>try: _ = repos[0]['name']  except KeyError: logging.error(...); exit(-1)\<close>
\<close>

definition check_shape :: "json \<Rightarrow> world \<Rightarrow> unit res \<times> world" where
  "check_shape repos w =
     (case (case getitem_0 repos of Inl x \<Rightarrow> Inl x | Inr first \<Rightarrow> getitem_str first ''name'') of
        Inl KeyError \<Rightarrow> (Stop (SysExit (- 1)), emit (Log (InvalidResponse repos)) w)
      | Inl x \<Rightarrow> (Stop (Uncaught x), w)
      | Inr v \<Rightarrow> (Ok (), w))"

definition main :: "env \<Rightarrow> config \<Rightarrow> world \<Rightarrow> unit res \<times> world" where
  "main e c w =
     (if \<not> isdir e (dest_arg c)
      then (Stop (SysExit (- 1)), emit (Log InvalidDestination) w)
      else (case make_request e (search_url (user c)) (headers_of c) w of
              (Stop h, w1) \<Rightarrow> (Stop h, w1)
            | (Ok r, w1) \<Rightarrow>
                (case json r of
                   None \<Rightarrow> (Stop (Uncaught JSONDecodeError), w1)
                 | Some j \<Rightarrow>
                     (case getitem_str j ''items'' of
                        Inl x \<Rightarrow> (Stop (Uncaught x), w1)
                      | Inr repos \<Rightarrow>
                          (let (timestamp, w2) = clock_now e w1 in
                           case check_shape repos w2 of
                             (Stop h, w3) \<Rightarrow> (Stop h, w3)
                           | (Ok u, w3) \<Rightarrow>
                               backup e c timestamp repos
                                 (emit (Log (StartingBackup (user c) (authenticated c) timestamp))
                                    w3))))))"

text \<open>
  The exit status of the process: the argument of \<^verbatim>\<open>exit\<close> as the operating system
  reports it, 1 after an uncaught exception, 0 when the module runs to its end.
\<close>

fun exit_status :: "unit res \<Rightarrow> int" where
  "exit_status (Ok u) = 0"
| "exit_status (Stop (SysExit n)) = n mod 256"
| "exit_status (Stop (Uncaught x)) = 1"

subsection \<open>Reading a trace\<close>

text \<open>The URLs requested, the files written and the directories created, in order.\<close>

fun requests_of :: "event list \<Rightarrow> string list" where
  "requests_of [] = []"
| "requests_of (Request u h # tr) = u # requests_of tr"
| "requests_of (ev # tr) = requests_of tr"

fun writes_of :: "event list \<Rightarrow> (string \<times> bytes) list" where
  "writes_of [] = []"
| "writes_of (Write p d # tr) = (p, d) # writes_of tr"
| "writes_of (ev # tr) = writes_of tr"

fun makedirs_of :: "event list \<Rightarrow> string list" where
  "makedirs_of [] = []"
| "makedirs_of (Makedirs p # tr) = p # makedirs_of tr"
| "makedirs_of (ev # tr) = makedirs_of tr"

fun clock_reads :: "event list \<Rightarrow> nat" where
  "clock_reads [] = 0"
| "clock_reads (ClockRead # tr) = Suc (clock_reads tr)"
| "clock_reads (ev # tr) = clock_reads tr"

definition written :: "event list \<Rightarrow> nat" where
  "written tr = sum_list (map (\<lambda>pd. length (snd pd)) (writes_of tr))"

text \<open>The totals announced by the completion log lines.\<close>

fun completed_logs :: "event list \<Rightarrow> nat list" where
  "completed_logs [] = []"
| "completed_logs (Log (BackupCompleted t1 n d t2 ts) # tr) = n # completed_logs tr"
| "completed_logs (ev # tr) = completed_logs tr"

text \<open>
  The events of one call of \<^verbatim>\<open>make_request\<close> after the request itself, and the events
  of the fetch loop.
\<close>

fun quiet_event :: "event \<Rightarrow> bool" where
  "quiet_event Sleep = True"
| "quiet_event (Log ApproachingRateLimit) = True"
| "quiet_event (Log (FailedToConnect s)) = True"
| "quiet_event (Log FailedToConnectPlain) = True"
| "quiet_event (Log RequestTimedOut) = True"
| "quiet_event (Log TooManyRedirectsMsg) = True"
| "quiet_event ev = False"

fun fetch_event :: "event \<Rightarrow> bool" where
  "fetch_event (Request u h) = True"
| "fetch_event (Write p d) = True"
| "fetch_event ev = quiet_event ev"

text \<open>
  The run was cancelled inside a backoff wait: the flag is set, and the trace ends with
  the warning and fewer sleeps than the wait has.
\<close>

definition ended_in_wait :: "world \<Rightarrow> bool" where
  "ended_in_wait w =
     (SIGNINT w
      \<and> (\<exists>tr k. k < RATE_LIMIT_WAIT_TIME_S
            \<and> trace w = tr @ Log ApproachingRateLimit # replicate k Sleep))"

text \<open>
  What a part of the fetch loop may do, from the counter \<open>bt\<close> and the world \<open>w\<close>: it
  adds events of the loop to the trace; if it completes, the counter has grown by the
  bytes written; if it stops the run, it is with \<^verbatim>\<open>exit(-1)\<close>, or with \<^verbatim>\<open>exit(0)\<close>
  inside a backoff wait, or with an uncaught exception.
\<close>

definition loop_result :: "nat \<Rightarrow> world \<Rightarrow> nat res \<Rightarrow> world \<Rightarrow> bool" where
  "loop_result bt w x w' =
     ((\<exists>evs. trace w' = trace w @ evs \<and> list_all fetch_event evs)
      \<and> (case x of
           Ok bt' \<Rightarrow> bt' + written (trace w) = bt + written (trace w')
         | Stop (SysExit n) \<Rightarrow> n = - 1 \<or> n = 0 \<and> ended_in_wait w'
         | Stop (Uncaught ex) \<Rightarrow> True))"

text \<open>
  The statements of \<^verbatim>\<open>__main__\<close> before the outer loop: the timestamp, the repository
  list and the world with which the run enters the loop, when it gets that far.
\<close>

definition loop_entry :: "env \<Rightarrow> config \<Rightarrow> world \<Rightarrow> (string \<times> json \<times> world) option" where
  "loop_entry e c w =
     (if \<not> isdir e (dest_arg c) then None
      else (case make_request e (search_url (user c)) (headers_of c) w of
              (Stop h, w1) \<Rightarrow> None
            | (Ok r, w1) \<Rightarrow>
                (case json r of
                   None \<Rightarrow> None
                 | Some j \<Rightarrow>
                     (case getitem_str j ''items'' of
                        Inl x \<Rightarrow> None
                      | Inr repos \<Rightarrow>
                          (let (timestamp, w2) = clock_now e w1 in
                           case check_shape repos w2 of
                             (Stop h, w3) \<Rightarrow> None
                           | (Ok u, w3) \<Rightarrow>
                               (let w4 = emit (Log (StartingBackup (user c) (authenticated c)
                                                 timestamp)) w3
                                in if makedirs_ok e (tick w4) (dest c @ timestamp)
                                   then Some (timestamp, repos,
                                          advance e (emit (Makedirs (dest c @ timestamp)) w4))
                                   else None))))))"

text \<open>A repository record with the two fields the outer loop reads.\<close>

definition has_names :: "json \<Rightarrow> bool" where
  "has_names repo =
     (\<not> isl (getitem_str repo ''name'') \<and> \<not> isl (getitem_str repo ''default_branch''))"

subsection \<open>A small account to run the program on\<close>

text \<open>
  The account \<^verbatim>\<open>u\<close> has the repositories \<^verbatim>\<open>a\<close> (branches \<^verbatim>\<open>main\<close> and \<^verbatim>\<open>dev\<close>) and
  \<^verbatim>\<open>b\<close> (branch \<^verbatim>\<open>main\<close>); the default branch of both is \<^verbatim>\<open>main\<close>. The directory
  \<^verbatim>\<open>/backup\<close> exists, and no file system operation fails. The signal schedule and the
  network are parameters of the environment; \<open>ex_net q\<close> is the network of this account,
  where the branch list of \<^verbatim>\<open>a\<close> comes with 10 requests left and that of \<^verbatim>\<open>b\<close> with
  the quota header \<open>q\<close>.
\<close>

definition ex_world :: world where
  "ex_world = \<lparr>SIGNINT = False, tick = 0, trace = [], files = Map.empty\<rparr>"

definition ex_config :: config where
  "ex_config = \<lparr>user = ''u'', dest_arg = ''/backup'', all_branches = True, tar_gz = False,
     token = None\<rparr>"

definition json_response :: "quota \<Rightarrow> json \<Rightarrow> response" where
  "json_response q j = \<lparr>status_code = 200, remaining = q, body_text = [],
     content = [], json = Some j\<rparr>"

definition archive_response :: "bytes \<Rightarrow> response" where
  "archive_response d = \<lparr>status_code = 200, remaining = NoQuotaHeader, body_text = [],
     content = d, json = None\<rparr>"

definition named :: "string \<Rightarrow> json" where
  "named n = JObj [(''name'', JStr n), (''default_branch'', JStr ''main'')]"

definition ex_net :: "quota \<Rightarrow> string \<Rightarrow> reply" where
  "ex_net q url =
     (if url = search_url ''u''
      then Response (json_response NoQuotaHeader
             (JObj [(''items'', JArr [named ''a'', named ''b''])]))
      else if url = branches_url ''u'' ''a''
      then Response (json_response (Quota 10) (JArr [named ''main'', named ''dev'']))
      else if url = branches_url ''u'' ''b''
      then Response (json_response q (JArr [named ''main'']))
      else if url = archive_url ''u'' ''a'' ''main'' ''zip''
      then Response (archive_response [1, 2, 3])
      else if url = archive_url ''u'' ''a'' ''dev'' ''zip''
      then Response (archive_response [4, 5])
      else if url = archive_url ''u'' ''b'' ''main'' ''zip''
      then Response (archive_response [6])
      else ConnectionError)"

definition ex_env :: "(nat \<Rightarrow> bool) \<Rightarrow> (string \<Rightarrow> reply) \<Rightarrow> env" where
  "ex_env sig net = \<lparr>sigint_at = sig, http_get = (\<lambda>k url headers. net url),
     now = (\<lambda>k. if k = 1 then ''T0'' else ''T1''), isdir = (\<lambda>p. p = ''/backup''),
     makedirs_ok = (\<lambda>k p. True), file_write = (\<lambda>k p. IoOk), py_str = (\<lambda>v. ''?'')\<rparr>"

definition offline :: "string \<Rightarrow> reply" where
  "offline url = ConnectionError"

definition empty_account :: "string \<Rightarrow> reply" where
  "empty_account url = Response (json_response NoQuotaHeader (JObj [(''items'', JArr [])]))"

text \<open>A network with the quota header \<open>q\<close> put on the reply to the URL \<open>u\<close>.\<close>

definition low_on :: "string \<Rightarrow> quota \<Rightarrow> (string \<Rightarrow> reply) \<Rightarrow> string \<Rightarrow> reply" where
  "low_on u q net url =
     (case net url of
        Response r \<Rightarrow> if url = u then Response (r\<lparr>remaining := q\<rparr>) else Response r
      | x \<Rightarrow> x)"

definition never :: "nat \<Rightarrow> bool" where
  "never k = False"

definition during :: "nat \<Rightarrow> nat \<Rightarrow> bool" where
  "during n k = (k = n)"

lemma wait_loop_numeral:
  "wait_loop e (numeral k) w =
     (if SIGNINT w then (Stop (SysExit 0), w) else wait_loop e (pred_numeral k) (sleep e w))"
  by (simp add: numeral_eq_Suc)

lemmas ex_defs =
  wait_loop_numeral
  ex_world_def ex_config_def json_response_def archive_response_def named_def ex_net_def
  ex_env_def never_def during_def offline_def empty_account_def low_on_def loop_entry_def
  has_names_def search_url_def branches_url_def archive_url_def
  archive_path_def main_def make_request_def rate_limit_check_def clock_now_def
  check_shape_def backup_def process_repo_def fetch_branch_def write_file_def finalize_def
  headers_of_def dest_def endswith_slash_def file_extension_def str_of_def
  authenticated_def advance_def emit_def signal_handler_def sleep_def
  RATE_LIMIT_WAIT_TIME_S_def RATE_LIMIT_WARNING_THRESHOLD_def ljust_def Let_def

section \<open>Properties\<close>

subsection \<open>Facts about the primitive steps\<close>

lemma requests_of_append [simp]: "requests_of (xs @ ys) = requests_of xs @ requests_of ys"
  by (induction xs rule: requests_of.induct) simp_all

lemma writes_of_append [simp]: "writes_of (xs @ ys) = writes_of xs @ writes_of ys"
  by (induction xs rule: writes_of.induct) simp_all

lemma makedirs_of_append [simp]: "makedirs_of (xs @ ys) = makedirs_of xs @ makedirs_of ys"
  by (induction xs rule: makedirs_of.induct) simp_all

lemma clock_reads_append [simp]: "clock_reads (xs @ ys) = clock_reads xs + clock_reads ys"
  by (induction xs rule: clock_reads.induct) simp_all

lemma written_append [simp]: "written (xs @ ys) = written xs + written ys"
  by (simp add: written_def)

lemma advance_simps [simp]:
  "SIGNINT (advance e w) = (SIGNINT w \<or> sigint_at e (tick w))"
  "tick (advance e w) = Suc (tick w)"
  "trace (advance e w) = trace w"
  "files (advance e w) = files w"
  by (simp_all add: advance_def signal_handler_def)

lemma emit_simps [simp]:
  "SIGNINT (emit ev w) = SIGNINT w"
  "tick (emit ev w) = tick w"
  "trace (emit ev w) = trace w @ [ev]"
  "files (emit ev w) = files w"
  by (simp_all add: emit_def)

lemma sleep_simps [simp]:
  "SIGNINT (sleep e w) = (SIGNINT w \<or> sigint_at e (tick w))"
  "tick (sleep e w) = Suc (tick w)"
  "trace (sleep e w) = trace w @ [Sleep]"
  "files (sleep e w) = files w"
  by (simp_all add: sleep_def)

lemma sleeps_simps [simp]:
  "tick ((sleep e ^^ k) w) = tick w + k"
  "trace ((sleep e ^^ k) w) = trace w @ replicate k Sleep"
  "files ((sleep e ^^ k) w) = files w"
  by (induction k) (simp_all add: replicate_append_same)

lemma sleeps_SIGNINT:
  "SIGNINT ((sleep e ^^ k) w) = (SIGNINT w \<or> (\<exists>i<k. sigint_at e (tick w + i)))"
  by (induction k) (auto simp: less_Suc_eq)

subsection \<open>The backoff wait\<close>

lemma wait_loop_completes:
  "(\<And>k. k < n \<Longrightarrow> \<not> SIGNINT ((sleep e ^^ k) w))
   \<Longrightarrow> wait_loop e n w = (Ok (), (sleep e ^^ n) w)"
proof (induction n arbitrary: w)
  case 0
  show ?case by simp
next
  case (Suc n)
  have "\<not> SIGNINT w" using Suc.prems [of 0] by simp
  moreover have "wait_loop e n (sleep e w) = (Ok (), (sleep e ^^ n) (sleep e w))"
  proof (rule Suc.IH)
    fix k assume "k < n"
    then show "\<not> SIGNINT ((sleep e ^^ k) (sleep e w))"
      using Suc.prems [of "Suc k"] by (simp add: funpow_swap1)
  qed
  ultimately show ?case by (simp add: funpow_swap1)
qed

lemma wait_loop_cancelled:
  "k < n \<Longrightarrow> SIGNINT ((sleep e ^^ k) w) \<Longrightarrow> (\<And>j. j < k \<Longrightarrow> \<not> SIGNINT ((sleep e ^^ j) w))
   \<Longrightarrow> wait_loop e n w = (Stop (SysExit 0), (sleep e ^^ k) w)"
proof (induction n arbitrary: w k)
  case 0
  then show ?case by simp
next
  case (Suc n)
  show ?case
  proof (cases k)
    case 0
    with Suc.prems show ?thesis by simp
  next
    case (Suc k')
    have "\<not> SIGNINT w" using Suc.prems(3) [of 0] Suc by simp
    moreover have "wait_loop e n (sleep e w) = (Stop (SysExit 0), (sleep e ^^ k') (sleep e w))"
    proof (rule Suc.IH)
      show "k' < n" using Suc.prems(1) Suc by simp
      show "SIGNINT ((sleep e ^^ k') (sleep e w))"
        using Suc.prems(2) Suc by (simp add: funpow_swap1)
      fix j assume "j < k'"
      then show "\<not> SIGNINT ((sleep e ^^ j) (sleep e w))"
        using Suc.prems(3) [of "Suc j"] Suc by (simp add: funpow_swap1)
    qed
    ultimately show ?thesis using Suc by (simp add: funpow_swap1)
  qed
qed

subsection \<open>The flag only goes up\<close>

lemma wait_loop_flag: "wait_loop e n w = (x, w') \<Longrightarrow> SIGNINT w \<Longrightarrow> SIGNINT w'"
  by (induction n arbitrary: w) (auto split: if_splits)

lemma rate_limit_check_flag:
  "rate_limit_check e r w = (x, w') \<Longrightarrow> SIGNINT w \<Longrightarrow> SIGNINT w'"
  by (auto simp: rate_limit_check_def split: quota.splits if_splits dest: wait_loop_flag)

lemma make_request_flag: "make_request e u h w = (x, w') \<Longrightarrow> SIGNINT w \<Longrightarrow> SIGNINT w'"
  by (auto simp: make_request_def Let_def split: reply.splits prod.splits res.splits if_splits
      dest: rate_limit_check_flag)

lemma write_file_flag: "write_file e p d w = (x, w') \<Longrightarrow> SIGNINT w \<Longrightarrow> SIGNINT w'"
  by (auto simp: write_file_def split: io.splits)

lemma fetch_branch_flag:
  "fetch_branch e c ts rn b bt w = (x, w') \<Longrightarrow> SIGNINT w \<Longrightarrow> SIGNINT w'"
  by (auto simp: fetch_branch_def split: sum.splits prod.splits res.splits
      dest: make_request_flag write_file_flag)

lemma fetch_branches_flag:
  "fetch_branches e c ts rn bs bt w = (x, w') \<Longrightarrow> SIGNINT w \<Longrightarrow> SIGNINT w'"
  by (cases bs) auto

lemma cancelled_fetch_branches:
  "SIGNINT w \<Longrightarrow> fetch_branches e c ts rn bs bt w = (Ok bt, w)"
  by (cases bs) simp_all

lemma process_repo_flag:
  "process_repo e c ts repo bt w = (x, w') \<Longrightarrow> SIGNINT w \<Longrightarrow> SIGNINT w'"
  by (auto simp: process_repo_def
      split: sum.splits prod.splits res.splits option.splits if_splits
      dest: make_request_flag fetch_branches_flag)

lemma fetch_repos_flag:
  "fetch_repos e c ts rs bt w = (x, w') \<Longrightarrow> SIGNINT w \<Longrightarrow> SIGNINT w'"
  by (induction rs arbitrary: bt w)
     (auto split: prod.splits res.splits dest: process_repo_flag)

lemma finalize_flag: "SIGNINT w \<Longrightarrow> SIGNINT (finalize e c ts bt w)"
  by (simp add: finalize_def clock_now_def)

lemma backup_flag: "backup e c ts repos w = (x, w') \<Longrightarrow> SIGNINT w \<Longrightarrow> SIGNINT w'"
  by (auto simp: backup_def split: if_splits prod.splits res.splits
      dest: fetch_repos_flag intro: finalize_flag)

lemma check_shape_flag: "check_shape repos w = (x, w') \<Longrightarrow> SIGNINT w' = SIGNINT w"
  by (auto simp: check_shape_def split: sum.splits exc.splits)

lemma main_flag: "main e c w = (x, w') \<Longrightarrow> SIGNINT w \<Longrightarrow> SIGNINT w'"
  by (auto simp: main_def clock_now_def
      split: if_splits prod.splits res.splits option.splits sum.splits
      dest!: make_request_flag check_shape_flag dest: backup_flag)

text \<open>
  C10. The signal handler sets the flag, and no step of the program clears it: whatever
  a function of the program does to a world in which the flag is set, the flag is set in
  the world it leaves.
\<close>

theorem cancellation_flag_monotone:
  "SIGNINT (signal_handler w)
   \<and> (SIGNINT w \<longrightarrow>
        SIGNINT (advance e w) \<and> SIGNINT (emit ev w) \<and> SIGNINT (sleep e w)
        \<and> SIGNINT (snd (clock_now e w))
        \<and> SIGNINT (snd (write_file e p d w))
        \<and> SIGNINT (snd (rate_limit_check e r w))
        \<and> SIGNINT (snd (make_request e u h w))
        \<and> SIGNINT (snd (fetch_branch e c ts rn b bt w))
        \<and> SIGNINT (snd (fetch_branches e c ts rn bs bt w))
        \<and> SIGNINT (snd (process_repo e c ts repo bt w))
        \<and> SIGNINT (snd (fetch_repos e c ts rs bt w))
        \<and> SIGNINT (finalize e c ts bt w)
        \<and> SIGNINT (snd (backup e c ts repos w))
        \<and> SIGNINT (snd (check_shape repos w))
        \<and> SIGNINT (snd (main e c w)))"
proof -
  have via: "SIGNINT (snd (f w))" if "SIGNINT w" and "\<And>x w'. f w = (x, w') \<Longrightarrow> SIGNINT w'"
    for f :: "world \<Rightarrow> 'a \<times> world"
    using that by (cases "f w") simp
  show ?thesis
    by (auto simp: signal_handler_def clock_now_def
        intro!: via finalize_flag
        dest: write_file_flag rate_limit_check_flag make_request_flag fetch_branch_flag
          fetch_branches_flag process_repo_flag fetch_repos_flag backup_flag
          check_shape_flag main_flag)
qed

text \<open>A whole run that starts with the flag set ends with the flag set.\<close>

theorem cancellation_flag_monotone_witness:
  "SIGNINT (signal_handler (ex_world\<lparr>SIGNINT := True\<rparr>))
   \<and> SIGNINT (ex_world\<lparr>SIGNINT := True\<rparr>)
   \<and> SIGNINT (snd (main (ex_env never (ex_net NoQuotaHeader)) ex_config
        (ex_world\<lparr>SIGNINT := True\<rparr>)))
   \<and> SIGNINT (snd (make_request (ex_env never (ex_net NoQuotaHeader)) (search_url ''u'') []
        (ex_world\<lparr>SIGNINT := True\<rparr>)))"
proof -
  have h: "SIGNINT (ex_world\<lparr>SIGNINT := True\<rparr>)" by simp
  show ?thesis
    using h
      cancellation_flag_monotone [where w = "ex_world\<lparr>SIGNINT := True\<rparr>"
        and e = "ex_env never (ex_net NoQuotaHeader)" and u = "search_url ''u''" and h = "[]"
        and c = ex_config]
    by simp
qed

subsection \<open>The destination check\<close>

text \<open>
  C4. If the destination is not a directory, the run ends at once with \<^verbatim>\<open>exit(-1)\<close>,
  a nonzero status: the only effect is the error log line, so no request has been issued
  and no file written.
\<close>

theorem invalid_destination_stops_first:
  assumes "\<not> isdir e (dest_arg c)"
  shows "main e c w = (Stop (SysExit (- 1)), emit (Log InvalidDestination) w)
       \<and> exit_status (fst (main e c w)) \<noteq> 0
       \<and> trace (snd (main e c w)) = trace w @ [Log InvalidDestination]
       \<and> requests_of (trace (snd (main e c w))) = requests_of (trace w)
       \<and> writes_of (trace (snd (main e c w))) = writes_of (trace w)
       \<and> files (snd (main e c w)) = files w"
  using assms by (simp add: main_def)

theorem invalid_destination_stops_first_witness:
  "\<not> isdir (ex_env never (ex_net NoQuotaHeader)) (dest_arg (ex_config\<lparr>dest_arg := ''/missing''\<rparr>))
   \<and> fst (main (ex_env never (ex_net NoQuotaHeader)) (ex_config\<lparr>dest_arg := ''/missing''\<rparr>)
        ex_world) = Stop (SysExit (- 1))
   \<and> trace (snd (main (ex_env never (ex_net NoQuotaHeader))
        (ex_config\<lparr>dest_arg := ''/missing''\<rparr>) ex_world)) = [Log InvalidDestination]"
proof -
  have h: "\<not> isdir (ex_env never (ex_net NoQuotaHeader))
      (dest_arg (ex_config\<lparr>dest_arg := ''/missing''\<rparr>))"
    by (simp add: ex_env_def)
  show ?thesis
    using h invalid_destination_stops_first [OF h, of ex_world]
    by (simp add: ex_world_def)
qed

subsection \<open>Destination paths\<close>

lemma separator_unique:
  "x \<notin> set xs \<Longrightarrow> x \<notin> set ys \<Longrightarrow> xs @ x # as = ys @ x # bs \<Longrightarrow> xs = ys \<and> as = bs"
proof (induction xs arbitrary: ys)
  case Nil
  then show ?case by (cases ys) auto
next
  case (Cons a xs)
  then show ?case by (cases ys) auto
qed

text \<open>
  C2, as the program has it. Within one session (one destination, one timestamp, one
  format) two pairs get the same path exactly when \<^verbatim>\<open>repo + "_" + branch\<close> is the same
  string for both. So the paths of two distinct pairs are distinct whenever neither
  repository name contains an underscore, or neither branch name does. The path is a
  function of (destination, timestamp, repository, branch, format): equal inputs give
  equal paths.
\<close>

theorem archive_path_collisions:
  "(archive_path d ts r1 b1 ext = archive_path d ts r2 b2 ext
      \<longleftrightarrow> r1 @ ''_'' @ b1 = r2 @ ''_'' @ b2)
   \<and> ((CHR ''_'' \<notin> set r1 \<and> CHR ''_'' \<notin> set r2) \<or> (CHR ''_'' \<notin> set b1 \<and> CHR ''_'' \<notin> set b2)
        \<longrightarrow> (r1, b1) \<noteq> (r2, b2)
        \<longrightarrow> archive_path d ts r1 b1 ext \<noteq> archive_path d ts r2 b2 ext)
   \<and> (d = d' \<and> ts = ts' \<and> r1 = r2 \<and> b1 = b2 \<and> ext = ext'
        \<longrightarrow> archive_path d ts r1 b1 ext = archive_path d' ts' r2 b2 ext')"
proof -
  have eq: "archive_path d ts r1 b1 ext = archive_path d ts r2 b2 ext
      \<longleftrightarrow> r1 @ ''_'' @ b1 = r2 @ ''_'' @ b2"
  proof -
    have "archive_path d ts r b ext = (d @ ts @ ''/'') @ (r @ ''_'' @ b) @ (''.'' @ ext)" for r b
      by (simp add: archive_path_def)
    then show ?thesis
      by (metis append_same_eq same_append_eq)
  qed
  have repos: "r1 = r2 \<and> b1 = b2"
    if "CHR ''_'' \<notin> set r1" "CHR ''_'' \<notin> set r2" "r1 @ ''_'' @ b1 = r2 @ ''_'' @ b2"
    using that separator_unique [of "CHR ''_''" r1 r2 b1 b2] by simp
  have branches: "r1 = r2 \<and> b1 = b2"
    if "CHR ''_'' \<notin> set b1" "CHR ''_'' \<notin> set b2" "r1 @ ''_'' @ b1 = r2 @ ''_'' @ b2"
  proof -
    have "rev (r1 @ ''_'' @ b1) = rev (r2 @ ''_'' @ b2)"
      using that(3) by simp
    then have "rev b1 @ CHR ''_'' # rev r1 = rev b2 @ CHR ''_'' # rev r2"
      by simp
    then have "rev b1 = rev b2 \<and> rev r1 = rev r2"
      using that(1,2) separator_unique [of "CHR ''_''" "rev b1" "rev b2" "rev r1" "rev r2"]
      by simp
    then show ?thesis by simp
  qed
  show ?thesis
    using eq repos branches by blast
qed

theorem archive_path_collisions_witness:
  "CHR ''_'' \<notin> set ''a'' \<and> CHR ''_'' \<notin> set ''b'' \<and> (''a'', ''main'') \<noteq> (''b'', ''main'')
   \<and> archive_path ''/backup/'' ''T0'' ''a'' ''main'' ''zip''
       \<noteq> archive_path ''/backup/'' ''T0'' ''b'' ''main'' ''zip''
   \<and> archive_path ''/backup/'' ''T0'' ''a'' ''main'' ''zip''
       = archive_path ''/backup/'' ''T0'' ''a'' ''main'' ''zip''"
proof -
  have h: "CHR ''_'' \<notin> set ''a'' \<and> CHR ''_'' \<notin> set ''b''" by simp
  have d: "(''a'', ''main'') \<noteq> (''b'', ''main'')" by simp
  show ?thesis
    using h d
      archive_path_collisions [of "''/backup/''" "''T0''" "''a''" "''main''" "''zip''" "''b''"
        "''main''" "''/backup/''" "''T0''" "''zip''"]
    by blast
qed

text \<open>
  The repository \<^verbatim>\<open>a_b\<close> with the branch \<^verbatim>\<open>c\<close> and the repository \<^verbatim>\<open>a\<close> with the
  branch \<^verbatim>\<open>b_c\<close> are two distinct pairs with one path.
\<close>

theorem archive_path_collision_counterexample:
  "(''a_b'', ''c'') \<noteq> (''a'', ''b_c'')
   \<and> archive_path ''/backup/'' ''T0'' ''a_b'' ''c'' ''zip''
       = archive_path ''/backup/'' ''T0'' ''a'' ''b_c'' ''zip''"
  by (simp add: archive_path_def)

subsection \<open>What one request does\<close>

lemma completed_logs_append [simp]:
  "completed_logs (xs @ ys) = completed_logs xs @ completed_logs ys"
  by (induction xs rule: completed_logs.induct) simp_all

lemma quiet_events:
  "list_all quiet_event evs \<Longrightarrow>
     requests_of evs = [] \<and> writes_of evs = [] \<and> makedirs_of evs = [] \<and> clock_reads evs = 0
     \<and> completed_logs evs = [] \<and> list_all fetch_event evs"
proof (induction evs)
  case Nil
  show ?case by simp
next
  case (Cons ev evs)
  then show ?case
    by (cases ev rule: quiet_event.cases) simp_all
qed

lemma fetch_events:
  "list_all fetch_event evs \<Longrightarrow>
     makedirs_of evs = [] \<and> clock_reads evs = 0 \<and> completed_logs evs = []"
proof (induction evs)
  case Nil
  show ?case by simp
next
  case (Cons ev evs)
  then show ?case
    by (cases ev rule: quiet_event.cases) simp_all
qed

lemma wait_loop_effect:
  "wait_loop e n w = (x, w') \<Longrightarrow>
     files w' = files w
     \<and> (\<exists>k. trace w' = trace w @ replicate k Sleep
           \<and> (x = Ok () \<or> x = Stop (SysExit 0) \<and> SIGNINT w' \<and> k < n))"
proof (induction n arbitrary: w)
  case 0
  then show ?case by auto
next
  case (Suc n)
  show ?case
  proof (cases "SIGNINT w")
    case True
    with Suc.prems have "x = Stop (SysExit 0)" "w' = w" by simp_all
    with True have "files w' = files w" "trace w' = trace w @ replicate 0 Sleep"
      "x = Stop (SysExit 0) \<and> SIGNINT w' \<and> 0 < Suc n"
      by simp_all
    then show ?thesis by blast
  next
    case False
    with Suc.prems have "wait_loop e n (sleep e w) = (x, w')" by simp
    from Suc.IH [OF this] obtain k where
      "files w' = files w" "trace w' = trace w @ replicate (Suc k) Sleep"
      "x = Ok () \<or> x = Stop (SysExit 0) \<and> SIGNINT w' \<and> Suc k < Suc n"
      by auto
    then show ?thesis by blast
  qed
qed

lemma rate_limit_check_effect:
  assumes "rate_limit_check e r w = (x, w')"
  shows "files w' = files w \<and> (\<exists>evs. trace w' = trace w @ evs \<and> list_all quiet_event evs)
     \<and> (x = Ok () \<or> x = Stop (SysExit 0) \<and> ended_in_wait w'
          \<or> x = Stop (Uncaught ValueError))"
proof (cases "remaining r")
  case NoQuotaHeader
  with assms show ?thesis by (auto simp: rate_limit_check_def)
next
  case QuotaUnparsable
  with assms show ?thesis by (auto simp: rate_limit_check_def)
next
  case (Quota n)
  show ?thesis
  proof (cases "n < RATE_LIMIT_WARNING_THRESHOLD")
    case False
    with Quota assms show ?thesis by (auto simp: rate_limit_check_def)
  next
    case True
    with Quota assms have
      "wait_loop e RATE_LIMIT_WAIT_TIME_S (emit (Log ApproachingRateLimit) w) = (x, w')"
      by (simp add: rate_limit_check_def)
    from wait_loop_effect [OF this] obtain k where k:
      "files w' = files w" "trace w' = trace w @ Log ApproachingRateLimit # replicate k Sleep"
      "x = Ok () \<or> x = Stop (SysExit 0) \<and> SIGNINT w' \<and> k < RATE_LIMIT_WAIT_TIME_S"
      by auto
    have "list_all quiet_event (Log ApproachingRateLimit # replicate k Sleep)"
      by (simp add: list_all_iff)
    with k(2) have "\<exists>evs. trace w' = trace w @ evs \<and> list_all quiet_event evs"
      by blast
    moreover have "x = Ok () \<or> x = Stop (SysExit 0) \<and> ended_in_wait w'"
      using k(2,3) unfolding ended_in_wait_def by blast
    ultimately show ?thesis using k(1) by blast
  qed
qed

lemma make_request_effect:
  assumes "make_request e u h w = (x, w')"
  shows "files w' = files w
     \<and> (\<exists>evs. trace w' = trace w @ Request u h # evs \<and> list_all quiet_event evs)
     \<and> (case x of
          Ok r \<Rightarrow> http_get e (tick w) u h = Response r
        | Stop (SysExit n) \<Rightarrow> n = - 1 \<or> n = 0 \<and> ended_in_wait w'
        | Stop (Uncaught ex) \<Rightarrow> ex = ValueError \<or> ex = RequestException)"
proof (cases "http_get e (tick w) u h")
  case (Response r)
  obtain y w2 where rl: "rate_limit_check e r (advance e (emit (Request u h) w)) = (y, w2)"
    by (cases "rate_limit_check e r (advance e (emit (Request u h) w))")
  from rate_limit_check_effect [OF rl] obtain evs where eff:
    "files w2 = files w" "trace w2 = trace w @ Request u h # evs" "list_all quiet_event evs"
    "y = Ok () \<or> y = Stop (SysExit 0) \<and> ended_in_wait w2 \<or> y = Stop (Uncaught ValueError)"
    by auto
  show ?thesis
  proof (cases y)
    case (Stop hl)
    with assms Response rl have "x = Stop hl" "w' = w2"
      by (simp_all add: make_request_def)
    with eff Stop show ?thesis by auto
  next
    case (Ok v)
    show ?thesis
    proof (cases "400 \<le> status_code r \<and> status_code r < 600")
      case True
      with assms Response rl Ok have
        "x = Stop (SysExit (- 1))" "w' = emit (Log (FailedToConnect (body_text r))) w2"
        by (simp_all add: make_request_def)
      moreover have "list_all quiet_event (evs @ [Log (FailedToConnect (body_text r))])"
        using eff(3) by simp
      ultimately show ?thesis using eff(1,2) by auto
    next
      case False
      with assms Response rl Ok have "x = Ok r" "w' = w2"
        by (auto simp: make_request_def)
      with eff Response show ?thesis by auto
    qed
  qed
qed (use assms in \<open>auto simp: make_request_def\<close>)

lemma make_request_trace:
  assumes "make_request e u h w = (x, w')"
  shows "requests_of (trace w') = requests_of (trace w) @ [u]"
    and "writes_of (trace w') = writes_of (trace w)"
    and "makedirs_of (trace w') = makedirs_of (trace w)"
    and "clock_reads (trace w') = clock_reads (trace w)"
    and "completed_logs (trace w') = completed_logs (trace w)"
    and "files w' = files w"
  using make_request_effect [OF assms] quiet_events by auto

lemma make_request_Ok:
  "make_request e u h w = (Ok r, w') \<Longrightarrow> http_get e (tick w) u h = Response r"
  using make_request_effect [of e u h w "Ok r" w'] by simp

subsection \<open>One download\<close>

text \<open>
  C6. When the body of the inner loop completes, the archive request was answered by a
  response, the destination file holds exactly the content of that response, the write
  recorded is of that content, and the byte counter has grown by its length.
\<close>

theorem download_is_verbatim:
  assumes "fetch_branch e c ts repo_name branch bytes_total w = (Ok bytes_total', w')"
  shows "\<exists>r. http_get e (tick w)
               (archive_url (user c) (str_of e repo_name) (str_of e branch) (file_extension c))
               (headers_of c) = Response r
           \<and> files w' (archive_path (dest c) ts (str_of e repo_name) (str_of e branch)
                 (file_extension c)) = Some (content r)
           \<and> writes_of (trace w') = writes_of (trace w) @
               [(archive_path (dest c) ts (str_of e repo_name) (str_of e branch)
                   (file_extension c), content r)]
           \<and> bytes_total' = bytes_total + length (content r)"
proof -
  let ?url = "archive_url (user c) (str_of e repo_name) (str_of e branch) (file_extension c)"
  let ?path = "archive_path (dest c) ts (str_of e repo_name) (str_of e branch) (file_extension c)"
  from assms obtain r w1 n where
    req: "make_request e ?url (headers_of c) w = (Ok r, w1)" and
    wr: "write_file e ?path (content r) w1 = (Ok n, w')" and
    total: "bytes_total' = bytes_total + n"
    by (auto simp: fetch_branch_def split: sum.splits prod.splits res.splits)
  from wr have ok: "file_write e (tick w1) ?path = IoOk"
    by (auto simp: write_file_def split: io.splits)
  with wr have n: "n = length (content r)"
    and w': "w' = advance e (emit (Write ?path (content r))
                (w1\<lparr>files := (files w1)(?path \<mapsto> content r)\<rparr>))"
    by (simp_all add: write_file_def)
  have "writes_of (trace w1) = writes_of (trace w)"
    using make_request_trace(2) [OF req] .
  then have "writes_of (trace w') = writes_of (trace w) @ [(?path, content r)]"
    by (simp add: w')
  moreover have "files w' ?path = Some (content r)"
    by (simp add: w')
  ultimately show ?thesis
    using make_request_Ok [OF req] total n by blast
qed

theorem download_is_verbatim_witness:
  "fetch_branch (ex_env never (ex_net NoQuotaHeader)) ex_config ''T0'' (JStr ''a'') (JStr ''dev'')
      3 ex_world
     = (Ok 5, \<lparr>SIGNINT = False, tick = 2,
          trace = [Request ''https://github.com/u/a/archive/refs/heads/dev.zip'' [],
                   Write ''/backup/T0/a_dev.zip'' [4, 5]],
          files = [''/backup/T0/a_dev.zip'' \<mapsto> [4, 5]]\<rparr>)
   \<and> (\<exists>r. ex_net NoQuotaHeader ''https://github.com/u/a/archive/refs/heads/dev.zip''
            = Response r
          \<and> content r = [4, 5])"
proof -
  have h: "fetch_branch (ex_env never (ex_net NoQuotaHeader)) ex_config ''T0'' (JStr ''a'')
      (JStr ''dev'') 3 ex_world
     = (Ok 5, \<lparr>SIGNINT = False, tick = 2,
          trace = [Request ''https://github.com/u/a/archive/refs/heads/dev.zip'' [],
                   Write ''/backup/T0/a_dev.zip'' [4, 5]],
          files = [''/backup/T0/a_dev.zip'' \<mapsto> [4, 5]]\<rparr>)"
    by (simp add: ex_defs)
  show ?thesis
    using h download_is_verbatim [OF h]
    by (auto simp: ex_defs)
qed

subsection \<open>The loops\<close>

lemma fetch_branch_trace:
  assumes "fetch_branch e c ts rn b bt w = (Ok bt', w')"
  shows "requests_of (trace w') = requests_of (trace w) @
           [archive_url (user c) (str_of e rn) (str_of e b) (file_extension c)]"
    and "map fst (writes_of (trace w')) = map fst (writes_of (trace w)) @
           [archive_path (dest c) ts (str_of e rn) (str_of e b) (file_extension c)]"
    and "bt' + written (trace w) = bt + written (trace w')"
proof -
  let ?url = "archive_url (user c) (str_of e rn) (str_of e b) (file_extension c)"
  let ?path = "archive_path (dest c) ts (str_of e rn) (str_of e b) (file_extension c)"
  from assms obtain r w1 n where
    req: "make_request e ?url (headers_of c) w = (Ok r, w1)" and
    wr: "write_file e ?path (content r) w1 = (Ok n, w')" and
    total: "bt' = bt + n"
    by (auto simp: fetch_branch_def split: sum.splits prod.splits res.splits)
  from wr have n: "n = length (content r)"
    and tr: "trace w' = trace w1 @ [Write ?path (content r)]"
    by (auto simp: write_file_def split: io.splits)
  show "requests_of (trace w') = requests_of (trace w) @ [?url]"
    using make_request_trace(1) [OF req] tr by simp
  show "map fst (writes_of (trace w')) = map fst (writes_of (trace w)) @ [?path]"
    using make_request_trace(2) [OF req] tr by simp
  show "bt' + written (trace w) = bt + written (trace w')"
    using make_request_trace(2) [OF req] tr total n by (simp add: written_def)
qed

lemma fetch_branches_uncancelled:
  "fetch_branches e c ts rn bs bt w = (Ok bt', w') \<Longrightarrow> \<not> SIGNINT w' \<Longrightarrow>
     requests_of (trace w') = requests_of (trace w) @
       map (\<lambda>b. archive_url (user c) (str_of e rn) (str_of e b) (file_extension c)) bs
     \<and> map fst (writes_of (trace w')) = map fst (writes_of (trace w)) @
       map (\<lambda>b. archive_path (dest c) ts (str_of e rn) (str_of e b) (file_extension c)) bs"
proof (induction bs arbitrary: bt w)
  case Nil
  then show ?case by simp
next
  case (Cons b bs)
  have clear: "\<not> SIGNINT w"
  proof
    assume "SIGNINT w"
    with Cons.prems(1) have "w' = w" by simp
    with Cons.prems(2) \<open>SIGNINT w\<close> show False by simp
  qed
  with Cons.prems(1) obtain bt1 w1 where
    first: "fetch_branch e c ts rn b bt w = (Ok bt1, w1)" and
    rest: "fetch_branches e c ts rn bs bt1 w1 = (Ok bt', w')"
    by (auto split: prod.splits res.splits)
  show ?case
    using Cons.IH [OF rest Cons.prems(2)] fetch_branch_trace(1,2) [OF first] by simp
qed

text \<open>
  C7. A repository is processed to the end with the flag still clear. With all-branches
  mode off, the only request is the archive request for the default branch, and the only
  file written is that branch's. With the mode on, the first request lists the branches;
  then there is one archive request and one file for each name in the reply, in the
  reply's order, and nothing else.
\<close>

theorem one_task_per_branch:
  assumes "process_repo e c ts repo bytes_total w = (Ok bytes_total', w')"
    and "\<not> SIGNINT w'"
  shows "\<exists>repo_name default_branch.
      getitem_str repo ''name'' = Inr repo_name
    \<and> getitem_str repo ''default_branch'' = Inr default_branch
    \<and> (\<not> all_branches c \<longrightarrow>
          requests_of (trace w') = requests_of (trace w) @
            [archive_url (user c) (str_of e repo_name) (str_of e default_branch)
               (file_extension c)]
        \<and> map fst (writes_of (trace w')) = map fst (writes_of (trace w)) @
            [archive_path (dest c) ts (str_of e repo_name) (str_of e default_branch)
               (file_extension c)])
    \<and> (all_branches c \<longrightarrow>
          (\<exists>r j branches.
              http_get e (tick w) (branches_url (user c) (str_of e repo_name)) (headers_of c)
                = Response r
            \<and> json r = Some j \<and> branch_names (iter j) = Inr branches
            \<and> requests_of (trace w') = requests_of (trace w) @
                branches_url (user c) (str_of e repo_name) #
                map (\<lambda>b. archive_url (user c) (str_of e repo_name) (str_of e b)
                      (file_extension c)) branches
            \<and> map fst (writes_of (trace w')) = map fst (writes_of (trace w)) @
                map (\<lambda>b. archive_path (dest c) ts (str_of e repo_name) (str_of e b)
                      (file_extension c)) branches))"
proof -
  from assms(1) obtain rn db where
    rn: "getitem_str repo ''name'' = Inr rn" and
    db: "getitem_str repo ''default_branch'' = Inr db"
    by (auto simp: process_repo_def split: sum.splits)
  show ?thesis
  proof (cases "all_branches c")
    case False
    with assms(1) rn db have
      "fetch_branches e c ts rn [db] bytes_total w = (Ok bytes_total', w')"
      by (simp add: process_repo_def)
    from fetch_branches_uncancelled [OF this assms(2)] False rn db
    show ?thesis by simp
  next
    case True
    with assms(1) rn db obtain r w1 j branches where
      req: "make_request e (branches_url (user c) (str_of e rn)) (headers_of c) w = (Ok r, w1)"
      and j: "json r = Some j" and names: "branch_names (iter j) = Inr branches"
      and loop: "fetch_branches e c ts rn branches bytes_total w1 = (Ok bytes_total', w')"
      by (auto simp: process_repo_def split: prod.splits res.splits option.splits sum.splits)
    have "requests_of (trace w') = requests_of (trace w) @
            branches_url (user c) (str_of e rn) #
            map (\<lambda>b. archive_url (user c) (str_of e rn) (str_of e b) (file_extension c)) branches"
      and "map fst (writes_of (trace w')) = map fst (writes_of (trace w)) @
            map (\<lambda>b. archive_path (dest c) ts (str_of e rn) (str_of e b) (file_extension c))
              branches"
      using fetch_branches_uncancelled [OF loop assms(2)] make_request_trace(1,2) [OF req]
      by simp_all
    with True rn db j names make_request_Ok [OF req] show ?thesis by blast
  qed
qed

text \<open>
  The repository \<^verbatim>\<open>a\<close>, with the mode on (two branches) and with the mode off.
\<close>

theorem one_task_per_branch_witness:
  "fst (process_repo (ex_env never (ex_net NoQuotaHeader)) ex_config ''T0'' (named ''a'') 0
         ex_world) = Ok 5
   \<and> \<not> SIGNINT (snd (process_repo (ex_env never (ex_net NoQuotaHeader)) ex_config ''T0''
         (named ''a'') 0 ex_world))
   \<and> all_branches ex_config
   \<and> requests_of (trace (snd (process_repo (ex_env never (ex_net NoQuotaHeader)) ex_config
         ''T0'' (named ''a'') 0 ex_world)))
       = [''https://api.github.com/repos/u/a/branches'',
          ''https://github.com/u/a/archive/refs/heads/main.zip'',
          ''https://github.com/u/a/archive/refs/heads/dev.zip'']
   \<and> fst (process_repo (ex_env never (ex_net NoQuotaHeader))
         (ex_config\<lparr>all_branches := False\<rparr>) ''T0'' (named ''a'') 0 ex_world) = Ok 3
   \<and> \<not> SIGNINT (snd (process_repo (ex_env never (ex_net NoQuotaHeader))
         (ex_config\<lparr>all_branches := False\<rparr>) ''T0'' (named ''a'') 0 ex_world))
   \<and> \<not> all_branches (ex_config\<lparr>all_branches := False\<rparr>)
   \<and> requests_of (trace (snd (process_repo (ex_env never (ex_net NoQuotaHeader))
         (ex_config\<lparr>all_branches := False\<rparr>) ''T0'' (named ''a'') 0 ex_world)))
       = [''https://github.com/u/a/archive/refs/heads/main.zip'']"
proof -
  let ?e = "ex_env never (ex_net NoQuotaHeader)"
  let ?off = "ex_config\<lparr>all_branches := False\<rparr>"
  obtain w1 where on: "process_repo ?e ex_config ''T0'' (named ''a'') 0 ex_world = (Ok 5, w1)"
    by (simp add: ex_defs)
  have clear1: "\<not> SIGNINT w1"
    using on by (auto simp: ex_defs)
  obtain w2 where off: "process_repo ?e ?off ''T0'' (named ''a'') 0 ex_world = (Ok 3, w2)"
    by (simp add: ex_defs)
  have clear2: "\<not> SIGNINT w2"
    using off by (auto simp: ex_defs)
  have m1: "all_branches ex_config" and m2: "\<not> all_branches ?off"
    by (simp_all add: ex_config_def)
  have n: "getitem_str (named ''a'') ''name'' = Inr (JStr ''a'')"
    "getitem_str (named ''a'') ''default_branch'' = Inr (JStr ''main'')"
    by (simp_all add: named_def)
  have b: "ex_net NoQuotaHeader ''https://api.github.com/repos/u/a/branches''
      = Response (json_response (Quota 10) (JArr [named ''main'', named ''dev'']))"
    by (simp add: ex_net_def search_url_def branches_url_def)
  have r1: "requests_of (trace w1)
       = [''https://api.github.com/repos/u/a/branches'',
          ''https://github.com/u/a/archive/refs/heads/main.zip'',
          ''https://github.com/u/a/archive/refs/heads/dev.zip'']"
    using one_task_per_branch [OF on clear1] m1 n b
    by (auto simp: ex_world_def ex_env_def ex_config_def json_response_def named_def str_of_def
        branches_url_def archive_url_def file_extension_def headers_of_def)
  have r2: "requests_of (trace w2) = [''https://github.com/u/a/archive/refs/heads/main.zip'']"
    using one_task_per_branch [OF off clear2] m2 n
    by (auto simp: ex_world_def ex_config_def str_of_def archive_url_def file_extension_def)
  show ?thesis
    using on off clear1 clear2 m1 m2 r1 r2 by simp
qed

subsection \<open>How the loops can end\<close>

lemma fetch_branch_effect:
  assumes "fetch_branch e c ts rn b bt w = (x, w')"
  shows "(\<exists>evs. trace w' = trace w @ evs \<and> list_all fetch_event evs)
     \<and> (case x of
          Ok bt' \<Rightarrow> bt' + written (trace w) = bt + written (trace w')
        | Stop (SysExit n) \<Rightarrow> n = - 1 \<or> n = 0 \<and> ended_in_wait w'
        | Stop (Uncaught ex) \<Rightarrow> True)"
proof (cases "log_fmt ''Fetching'' rn b")
  case (Inl ex)
  with assms show ?thesis by (auto simp: fetch_branch_def)
next
  case (Inr t)
  let ?url = "archive_url (user c) (str_of e rn) (str_of e b) (file_extension c)"
  let ?path = "archive_path (dest c) ts (str_of e rn) (str_of e b) (file_extension c)"
  obtain y w1 where req: "make_request e ?url (headers_of c) w = (y, w1)"
    by (cases "make_request e ?url (headers_of c) w")
  from make_request_effect [OF req] obtain evs where
    evs: "trace w1 = trace w @ Request ?url (headers_of c) # evs" "list_all quiet_event evs"
    and halt: "case y of Ok r \<Rightarrow> True
        | Stop (SysExit n) \<Rightarrow> n = - 1 \<or> n = 0 \<and> ended_in_wait w1
        | Stop (Uncaught ex) \<Rightarrow> True"
    by (auto split: res.splits halt.splits)
  have fev: "list_all fetch_event (Request ?url (headers_of c) # evs)"
    using evs(2) quiet_events by simp
  show ?thesis
  proof (cases y)
    case (Stop hl)
    with assms Inr req have "x = Stop hl" "w' = w1"
      by (simp_all add: fetch_branch_def)
    with evs(1) fev halt Stop show ?thesis
      by (auto split: halt.splits)
  next
    case (Ok r)
    show ?thesis
    proof (cases "file_write e (tick w1) ?path")
      case IoOk
      with assms Inr req Ok have x: "x = Ok (bt + length (content r))"
        and w': "trace w' = trace w1 @ [Write ?path (content r)]"
        by (auto simp: fetch_branch_def write_file_def)
      have "trace w' = trace w @ (Request ?url (headers_of c) # evs) @ [Write ?path (content r)]"
        using w' evs(1) by simp
      moreover have "list_all fetch_event
          ((Request ?url (headers_of c) # evs) @ [Write ?path (content r)])"
        using fev by simp
      ultimately have "\<exists>evs. trace w' = trace w @ evs \<and> list_all fetch_event evs"
        by blast
      moreover have "written (trace w') = written (trace w) + length (content r)"
        using w' evs quiet_events [OF evs(2)] by (simp add: written_def)
      ultimately show ?thesis
        using x by simp
    next
      case OpenError
      with assms Inr req Ok have "x = Stop (Uncaught OSError)" "trace w' = trace w1"
        by (auto simp: fetch_branch_def write_file_def)
      with evs(1) fev show ?thesis by auto
    next
      case (WriteError k)
      with assms Inr req Ok have "x = Stop (Uncaught OSError)" "trace w' = trace w1"
        by (auto simp: fetch_branch_def write_file_def)
      with evs(1) fev show ?thesis by auto
    qed
  qed
qed

lemma loop_result_refl: "loop_result bt w (Ok bt) w"
  by (simp add: loop_result_def)

lemma loop_result_step:
  assumes "loop_result bt w (Ok bt1) w1" and "loop_result bt1 w1 x w'"
  shows "loop_result bt w x w'"
proof -
  from assms obtain evs1 evs2 where
    "trace w1 = trace w @ evs1" "list_all fetch_event evs1"
    "trace w' = trace w1 @ evs2" "list_all fetch_event evs2"
    by (auto simp: loop_result_def)
  then have "trace w' = trace w @ (evs1 @ evs2)" "list_all fetch_event (evs1 @ evs2)"
    by simp_all
  then have "\<exists>evs. trace w' = trace w @ evs \<and> list_all fetch_event evs"
    by blast
  moreover have "bt1 + written (trace w) = bt + written (trace w1)"
    using assms(1) by (simp add: loop_result_def)
  ultimately show ?thesis
    using assms(2) by (auto simp: loop_result_def split: res.splits halt.splits)
qed

lemma fetch_branch_result:
  "fetch_branch e c ts rn b bt w = (x, w') \<Longrightarrow> loop_result bt w x w'"
  using fetch_branch_effect [of e c ts rn b bt w x w'] by (simp add: loop_result_def)

lemma make_request_result:
  assumes "make_request e u h w = (y, w1)"
  shows "case y of Ok r \<Rightarrow> loop_result bt w (Ok bt) w1 | Stop hl \<Rightarrow> loop_result bt w (Stop hl) w1"
proof -
  from make_request_effect [OF assms] obtain evs where
    evs: "trace w1 = trace w @ Request u h # evs" "list_all quiet_event evs"
    and halt: "case y of Ok r \<Rightarrow> True
        | Stop (SysExit n) \<Rightarrow> n = - 1 \<or> n = 0 \<and> ended_in_wait w1
        | Stop (Uncaught ex) \<Rightarrow> True"
    by (auto split: res.splits halt.splits)
  have "list_all fetch_event (Request u h # evs)"
    using evs(2) quiet_events by simp
  with evs(1) have "\<exists>evs. trace w1 = trace w @ evs \<and> list_all fetch_event evs"
    by blast
  moreover have "written (trace w1) = written (trace w)"
    using make_request_trace(2) [OF assms] by (simp add: written_def)
  ultimately show ?thesis
    using halt by (auto simp: loop_result_def split: res.splits halt.splits)
qed

lemma fetch_branches_result:
  "fetch_branches e c ts rn bs bt w = (x, w') \<Longrightarrow> loop_result bt w x w'"
proof (induction bs arbitrary: bt w)
  case Nil
  then show ?case by (auto intro: loop_result_refl)
next
  case (Cons b bs)
  show ?case
  proof (cases "SIGNINT w")
    case True
    with Cons.prems show ?thesis by (auto intro: loop_result_refl)
  next
    case False
    obtain y w1 where first: "fetch_branch e c ts rn b bt w = (y, w1)"
      by (cases "fetch_branch e c ts rn b bt w")
    show ?thesis
    proof (cases y)
      case (Stop hl)
      with Cons.prems False first have "x = Stop hl" "w' = w1" by simp_all
      with fetch_branch_result [OF first] Stop show ?thesis by simp
    next
      case (Ok bt1)
      with Cons.prems False first have "fetch_branches e c ts rn bs bt1 w1 = (x, w')"
        by simp
      from Cons.IH [OF this] fetch_branch_result [OF first] Ok show ?thesis
        by (auto intro: loop_result_step)
    qed
  qed
qed

lemma process_repo_result:
  assumes "process_repo e c ts repo bt w = (x, w')"
  shows "loop_result bt w x w'"
proof (cases "getitem_str repo ''name''")
  case (Inl ex)
  with assms show ?thesis by (auto simp: process_repo_def loop_result_def)
next
  case (Inr rn)
  note rn = this
  show ?thesis
  proof (cases "getitem_str repo ''default_branch''")
    case (Inl ex)
    with assms rn show ?thesis by (auto simp: process_repo_def loop_result_def)
  next
    case (Inr db)
    show ?thesis
    proof (cases "all_branches c")
      case False
      with assms rn Inr have "fetch_branches e c ts rn [db] bt w = (x, w')"
        by (simp add: process_repo_def)
      then show ?thesis by (rule fetch_branches_result)
    next
      case True
      obtain y w1 where
        req: "make_request e (branches_url (user c) (str_of e rn)) (headers_of c) w = (y, w1)"
        by (cases "make_request e (branches_url (user c) (str_of e rn)) (headers_of c) w")
      note mr = make_request_result [OF req, of bt]
      show ?thesis
      proof (cases y)
        case (Stop hl)
        with assms rn Inr True req have "x = Stop hl" "w' = w1"
          by (simp_all add: process_repo_def)
        with mr Stop show ?thesis by simp
      next
        case (Ok r)
        with mr have here: "loop_result bt w (Ok bt) w1" by simp
        have unc: "loop_result bt w (Stop (Uncaught ex)) w1" for ex
          using here by (simp add: loop_result_def)
        show ?thesis
        proof (cases "json r")
          case None
          with assms rn Inr True req Ok have "x = Stop (Uncaught JSONDecodeError)" "w' = w1"
            by (simp_all add: process_repo_def)
          with unc show ?thesis by simp
        next
          case (Some j)
          show ?thesis
          proof (cases "branch_names (iter j)")
            case (Inl ex)
            with assms rn Inr True req Ok Some have "x = Stop (Uncaught ex)" "w' = w1"
              by (simp_all add: process_repo_def)
            with unc show ?thesis by simp
          next
            case (Inr branches)
            with assms rn \<open>getitem_str repo ''default_branch'' = Inr db\<close> True req Ok Some
            have "fetch_branches e c ts rn branches bt w1 = (x, w')"
              by (simp add: process_repo_def)
            from fetch_branches_result [OF this] here show ?thesis
              by (rule loop_result_step [rotated])
          qed
        qed
      qed
    qed
  qed
qed

lemma fetch_repos_result:
  "fetch_repos e c ts rs bt w = (x, w') \<Longrightarrow> loop_result bt w x w'"
proof (induction rs arbitrary: bt w)
  case Nil
  then show ?case by (auto intro: loop_result_refl)
next
  case (Cons repo rs)
  obtain y w1 where first: "process_repo e c ts repo bt w = (y, w1)"
    by (cases "process_repo e c ts repo bt w")
  show ?case
  proof (cases y)
    case (Stop hl)
    with Cons.prems first have "x = Stop hl" "w' = w1" by simp_all
    with process_repo_result [OF first] Stop show ?thesis by simp
  next
    case (Ok bt1)
    with Cons.prems first have "fetch_repos e c ts rs bt1 w1 = (x, w')"
      by simp
    from Cons.IH [OF this] process_repo_result [OF first] Ok show ?thesis
      by (auto intro: loop_result_step)
  qed
qed

subsection \<open>The whole run\<close>

lemma check_shape_cases:
  assumes "check_shape repos w = (x, w')"
  shows "x = Ok () \<and> w' = w
     \<or> x = Stop (SysExit (- 1)) \<and> w' = emit (Log (InvalidResponse repos)) w
     \<or> (\<exists>ex. x = Stop (Uncaught ex) \<and> w' = w)"
  using assms by (auto simp: check_shape_def split: sum.splits exc.splits)

lemma backup_result:
  assumes "backup e c ts repos w = (x, w')"
  shows "(\<exists>evs. trace w' = trace w @ evs)
     \<and> (case x of
          Ok u \<Rightarrow>
            (\<exists>k n tr.
                tick w' = Suc (Suc k)
              \<and> trace w' = tr @ [ClockRead, ClockRead,
                   Log (BackupCompleted (now e k) n (dest c) (now e (Suc k)) ts)]
              \<and> completed_logs (trace w') = completed_logs (trace w) @ [n]
              \<and> n + written (trace w) = written (trace w')
              \<and> makedirs_of (trace w') = makedirs_of (trace w) @ [dest c @ ts])
        | Stop (SysExit k) \<Rightarrow>
            (k = - 1 \<or> k = 0 \<and> ended_in_wait w')
            \<and> completed_logs (trace w') = completed_logs (trace w)
        | Stop (Uncaught ex) \<Rightarrow> completed_logs (trace w') = completed_logs (trace w))"
proof (cases "makedirs_ok e (tick w) (dest c @ ts)")
  case False
  with assms show ?thesis by (auto simp: backup_def)
next
  case True
  let ?w0 = "advance e (emit (Makedirs (dest c @ ts)) w)"
  obtain y w1 where loop: "fetch_repos e c ts (iter repos) 0 ?w0 = (y, w1)"
    by (cases "fetch_repos e c ts (iter repos) 0 ?w0")
  from fetch_repos_result [OF loop] obtain evs where
    evs: "trace w1 = trace w @ Makedirs (dest c @ ts) # evs" "list_all fetch_event evs"
    and res: "case y of
           Ok bt' \<Rightarrow> bt' + written (trace ?w0) = 0 + written (trace w1)
         | Stop (SysExit n) \<Rightarrow> n = - 1 \<or> n = 0 \<and> ended_in_wait w1
         | Stop (Uncaught ex) \<Rightarrow> True"
    by (auto simp: loop_result_def)
  note fe = fetch_events [OF evs(2)]
  show ?thesis
  proof (cases y)
    case (Stop hl)
    with assms True loop have "x = Stop hl" "w' = w1"
      by (simp_all add: backup_def)
    with evs(1) fe res Stop show ?thesis
      by (auto split: halt.splits)
  next
    case (Ok n)
    with assms True loop have x: "x = Ok ()" and w': "w' = finalize e c ts n w1"
      by (simp_all add: backup_def)
    have tr: "trace w' = trace w1 @
        [ClockRead, ClockRead,
         Log (BackupCompleted (now e (tick w1)) n (dest c) (now e (Suc (tick w1))) ts)]"
      by (simp add: w' finalize_def clock_now_def)
    have tk: "tick w' = Suc (Suc (tick w1))"
      by (simp add: w' finalize_def clock_now_def)
    have n: "n + written (trace w) = written (trace w')"
      using res Ok tr by (simp add: written_def)
    have "completed_logs (trace w') = completed_logs (trace w) @ [n]"
      and "makedirs_of (trace w') = makedirs_of (trace w) @ [dest c @ ts]"
      and ext: "\<exists>evs. trace w' = trace w @ evs"
      using tr evs(1) fe by simp_all
    with n tr tk have "\<exists>k n tr.
          tick w' = Suc (Suc k)
        \<and> trace w' = tr @ [ClockRead, ClockRead,
             Log (BackupCompleted (now e k) n (dest c) (now e (Suc k)) ts)]
        \<and> completed_logs (trace w') = completed_logs (trace w) @ [n]
        \<and> n + written (trace w) = written (trace w')
        \<and> makedirs_of (trace w') = makedirs_of (trace w) @ [dest c @ ts]"
      by blast
    with x ext show ?thesis by simp
  qed
qed

lemma main_unfold:
  assumes "isdir e (dest_arg c)"
    and "make_request e (search_url (user c)) (headers_of c) w = (y, w1)"
  shows "main e c w =
     (case y of
        Stop hl \<Rightarrow> (Stop hl, w1)
      | Ok r \<Rightarrow>
          (case json r of
             None \<Rightarrow> (Stop (Uncaught JSONDecodeError), w1)
           | Some j \<Rightarrow>
               (case getitem_str j ''items'' of
                  Inl ex \<Rightarrow> (Stop (Uncaught ex), w1)
                | Inr repos \<Rightarrow>
                    (case check_shape repos (advance e (emit ClockRead w1)) of
                       (Stop hl, w3) \<Rightarrow> (Stop hl, w3)
                     | (Ok u, w3) \<Rightarrow>
                         backup e c (now e (tick w1)) repos
                           (emit (Log (StartingBackup (user c) (authenticated c)
                              (now e (tick w1)))) w3)))))"
  using assms
  by (simp add: main_def clock_now_def split: res.splits option.splits sum.splits)

lemma main_result:
  assumes "main e c w = (x, w')"
  shows "(x = Ok () \<longrightarrow>
           (\<exists>r w1 k n tr.
               make_request e (search_url (user c)) (headers_of c) w = (Ok r, w1)
             \<and> tick w' = Suc (Suc k)
             \<and> trace w' = tr @ [ClockRead, ClockRead,
                  Log (BackupCompleted (now e k) n (dest c) (now e (Suc k)) (now e (tick w1)))]
             \<and> completed_logs (trace w') = completed_logs (trace w) @ [n]
             \<and> n + written (trace w) = written (trace w')
             \<and> makedirs_of (trace w') = makedirs_of (trace w) @ [dest c @ now e (tick w1)])
           \<and> exit_status x = 0)
       \<and> (\<forall>k. x = Stop (SysExit k) \<longrightarrow>
             (k = - 1 \<or> k = 0 \<and> ended_in_wait w')
             \<and> completed_logs (trace w') = completed_logs (trace w))"
proof (cases "isdir e (dest_arg c)")
  case False
  with assms show ?thesis by (auto simp: main_def)
next
  case True
  obtain y w1 where req: "make_request e (search_url (user c)) (headers_of c) w = (y, w1)"
    by (cases "make_request e (search_url (user c)) (headers_of c) w")
  note unfold = main_unfold [OF True req]
  note tr1 = make_request_trace [OF req]
  from make_request_effect [OF req] have halt1:
    "case y of Ok r \<Rightarrow> True | Stop (SysExit n) \<Rightarrow> n = - 1 \<or> n = 0 \<and> ended_in_wait w1
       | Stop (Uncaught ex) \<Rightarrow> True"
    by (auto split: res.splits halt.splits)
  show ?thesis
  proof (cases y)
    case (Stop hl)
    with assms unfold have "x = Stop hl" "w' = w1" by simp_all
    with halt1 Stop tr1(5) show ?thesis by (auto split: halt.splits)
  next
    case (Ok r)
    show ?thesis
    proof (cases "json r")
      case None
      with assms unfold Ok show ?thesis by auto
    next
      case (Some j)
      show ?thesis
      proof (cases "getitem_str j ''items''")
        case (Inl ex)
        with assms unfold Ok Some show ?thesis by auto
      next
        case (Inr repos)
        let ?w2 = "advance e (emit ClockRead w1)"
        obtain z w3 where shape: "check_shape repos ?w2 = (z, w3)"
          by (cases "check_shape repos ?w2")
        from check_shape_cases [OF shape] consider
          (ok) "z = Ok ()" "w3 = ?w2"
          | (invalid) "z = Stop (SysExit (- 1))" "w3 = emit (Log (InvalidResponse repos)) ?w2"
          | (raised) ex where "z = Stop (Uncaught ex)" "w3 = ?w2"
          by blast
        then show ?thesis
        proof cases
          case invalid
          with assms unfold Ok Some Inr shape have
            "x = Stop (SysExit (- 1))" "w' = emit (Log (InvalidResponse repos)) ?w2"
            by simp_all
          with tr1(5) show ?thesis by simp
        next
          case raised
          with assms unfold Ok Some Inr shape have "x = Stop (Uncaught ex)"
            by simp
          then show ?thesis by simp
        next
          case ok
          define ts where "ts = now e (tick w1)"
          define w4 where
            "w4 = emit (Log (StartingBackup (user c) (authenticated c) ts)) ?w2"
          from assms unfold Ok Some Inr shape ok have
            run: "backup e c ts repos w4 = (x, w')"
            by (simp add: ts_def w4_def)
          have same: "completed_logs (trace w4) = completed_logs (trace w)"
            "written (trace w4) = written (trace w)"
            "makedirs_of (trace w4) = makedirs_of (trace w)"
            using tr1 by (simp_all add: written_def w4_def)
          have req': "make_request e (search_url (user c)) (headers_of c) w = (Ok r, w1)"
            using req Ok by simp
          show ?thesis
          proof (cases x)
            case (Ok u)
            from conjunct2 [OF backup_result [OF run]] Ok have
              "\<exists>k n tr.
                 tick w' = Suc (Suc k)
               \<and> trace w' = tr @ [ClockRead, ClockRead,
                    Log (BackupCompleted (now e k) n (dest c) (now e (Suc k)) ts)]
               \<and> completed_logs (trace w') = completed_logs (trace w4) @ [n]
               \<and> n + written (trace w4) = written (trace w')
               \<and> makedirs_of (trace w') = makedirs_of (trace w4) @ [dest c @ ts]"
              by simp
            then obtain k n tr where
              "tick w' = Suc (Suc k)"
              "trace w' = tr @ [ClockRead, ClockRead,
                  Log (BackupCompleted (now e k) n (dest c) (now e (Suc k)) (now e (tick w1)))]"
              "completed_logs (trace w') = completed_logs (trace w) @ [n]"
              "n + written (trace w) = written (trace w')"
              "makedirs_of (trace w') = makedirs_of (trace w) @ [dest c @ now e (tick w1)]"
              unfolding same ts_def by blast
            with req' have
              "\<exists>r w1 k n tr.
                 make_request e (search_url (user c)) (headers_of c) w = (Ok r, w1)
               \<and> tick w' = Suc (Suc k)
               \<and> trace w' = tr @ [ClockRead, ClockRead,
                    Log (BackupCompleted (now e k) n (dest c) (now e (Suc k)) (now e (tick w1)))]
               \<and> completed_logs (trace w') = completed_logs (trace w) @ [n]
               \<and> n + written (trace w) = written (trace w')
               \<and> makedirs_of (trace w') = makedirs_of (trace w) @ [dest c @ now e (tick w1)]"
              by blast
            with Ok show ?thesis by simp
          next
            case (Stop hl)
            with conjunct2 [OF backup_result [OF run]] same(1) show ?thesis
              by (auto split: halt.splits)
          qed
        qed
      qed
    qed
  qed
qed

subsection \<open>A stop ends the run\<close>

text \<open>
  A function of the program that gets a stop from the one it calls hands it on as it
  is; no statement of the program catches \<^verbatim>\<open>SystemExit\<close> or another exception on the
  way. The loops are taken at any position: the part of the list before it has been
  processed, and the stop comes from the next element.
\<close>

lemma fetch_branch_stop:
  "log_fmt ''Fetching'' rn b = Inr t \<Longrightarrow>
   make_request e (archive_url (user c) (str_of e rn) (str_of e b) (file_extension c))
     (headers_of c) v = (Stop hl, v') \<Longrightarrow>
   fetch_branch e c ts rn b bt v = (Stop hl, v')"
  by (simp add: fetch_branch_def)

lemma fetch_branches_append:
  "fetch_branches e c ts rn (xs @ ys) bt w =
     (case fetch_branches e c ts rn xs bt w of
        (Stop hl, w1) \<Rightarrow> (Stop hl, w1)
      | (Ok bt1, w1) \<Rightarrow> fetch_branches e c ts rn ys bt1 w1)"
proof (induction xs arbitrary: bt w)
  case Nil
  show ?case by simp
next
  case (Cons x xs)
  show ?case
  proof (cases "SIGNINT w")
    case True
    then show ?thesis by (simp add: cancelled_fetch_branches)
  next
    case False
    then show ?thesis
      by (simp add: Cons.IH split: prod.splits res.splits)
  qed
qed

lemma fetch_branches_stop:
  assumes "fetch_branches e c ts rn pre bt v0 = (Ok bt1, v)" and "\<not> SIGNINT v"
    and "fetch_branch e c ts rn b bt1 v = (Stop hl, v')"
  shows "fetch_branches e c ts rn (pre @ b # post) bt v0 = (Stop hl, v')"
  using assms by (simp add: fetch_branches_append)

lemma process_repo_stop_listing:
  "getitem_str repo ''name'' = Inr rn \<Longrightarrow> getitem_str repo ''default_branch'' = Inr db \<Longrightarrow>
   all_branches c \<Longrightarrow>
   make_request e (branches_url (user c) (str_of e rn)) (headers_of c) v = (Stop hl, v') \<Longrightarrow>
   process_repo e c ts repo bt v = (Stop hl, v')"
  by (simp add: process_repo_def)

lemma process_repo_stop_loop:
  assumes "getitem_str repo ''name'' = Inr rn" and "getitem_str repo ''default_branch'' = Inr db"
    and "if all_branches c
         then \<exists>r j. make_request e (branches_url (user c) (str_of e rn)) (headers_of c) v
                      = (Ok r, v1)
                \<and> json r = Some j \<and> branch_names (iter j) = Inr bs
         else bs = [db] \<and> v1 = v"
    and "fetch_branches e c ts rn bs bt v1 = (Stop hl, v')"
  shows "process_repo e c ts repo bt v = (Stop hl, v')"
  using assms by (auto simp: process_repo_def split: if_splits)

lemma fetch_repos_append:
  "fetch_repos e c ts (xs @ ys) bt w =
     (case fetch_repos e c ts xs bt w of
        (Stop hl, w1) \<Rightarrow> (Stop hl, w1)
      | (Ok bt1, w1) \<Rightarrow> fetch_repos e c ts ys bt1 w1)"
  by (induction xs arbitrary: bt w) (simp_all split: prod.splits res.splits)

lemma fetch_repos_stop:
  assumes "fetch_repos e c ts pre bt v0 = (Ok bt1, v)"
    and "process_repo e c ts repo bt1 v = (Stop hl, v')"
  shows "fetch_repos e c ts (pre @ repo # post) bt v0 = (Stop hl, v')"
  using assms by (simp add: fetch_repos_append)

lemma main_stop_search:
  "isdir e (dest_arg c) \<Longrightarrow>
   make_request e (search_url (user c)) (headers_of c) w = (Stop hl, w') \<Longrightarrow>
   main e c w = (Stop hl, w')"
  by (simp add: main_unfold)

lemma main_from_loop_entry:
  assumes "loop_entry e c w = Some (ts, repos, w5)"
  shows "main e c w =
     (case fetch_repos e c ts (iter repos) 0 w5 of
        (Stop hl, w') \<Rightarrow> (Stop hl, w')
      | (Ok bt, w') \<Rightarrow> (Ok (), finalize e c ts bt w'))"
proof -
  from assms have dir: "isdir e (dest_arg c)"
    by (simp add: loop_entry_def split: if_splits)
  obtain y w1 where req: "make_request e (search_url (user c)) (headers_of c) w = (y, w1)"
    by (cases "make_request e (search_url (user c)) (headers_of c) w")
  let ?w2 = "advance e (emit ClockRead w1)"
  let ?w4 = "emit (Log (StartingBackup (user c) (authenticated c) (now e (tick w1)))) ?w2"
  from assms dir req obtain r j u where
    y: "y = Ok r" and j: "json r = Some j" and items: "getitem_str j ''items'' = Inr repos"
    and shape: "check_shape repos ?w2 = (Ok u, ?w2)"
    and ts: "ts = now e (tick w1)"
    and mk: "makedirs_ok e (tick ?w4) (dest c @ ts)"
    and w5: "w5 = advance e (emit (Makedirs (dest c @ ts)) ?w4)"
    by (auto simp: loop_entry_def clock_now_def Let_def
        split: res.splits option.splits sum.splits prod.splits if_splits
        dest: check_shape_cases)
  have "main e c w = backup e c ts repos ?w4"
    using main_unfold [OF dir req] y j items shape ts by simp
  also have "\<dots> = (case fetch_repos e c ts (iter repos) 0 w5 of
        (Stop hl, w') \<Rightarrow> (Stop hl, w')
      | (Ok bt, w') \<Rightarrow> (Ok (), finalize e c ts bt w'))"
    using mk w5 by (simp add: backup_def)
  finally show ?thesis .
qed

text \<open>
  C5. A response whose quota header is a number below 10 makes \<^verbatim>\<open>rate_limit_check\<close>
  log a warning and then poll the flag before each of ten sleeps of one second. If no
  poll sees the flag, it returns after exactly ten sleeps. If the poll after \<open>k\<close> sleeps
  (\<open>k < 10\<close>) is the first that sees the flag, the wait ends there with \<^verbatim>\<open>exit(0)\<close>:
  the flag was still clear one sleep earlier, so the exit comes at most one second after
  the signal, and the wait is not completed. That exit ends the program with status 0
  from wherever the request was made. \<^verbatim>\<open>make_request\<close> hands it on, since none of its
  handlers catches it. So does the repository-list request in \<^verbatim>\<open>__main__\<close>; so does
  the body of the inner loop for an archive request, and the inner loop at any branch
  reached with the flag clear; so does the body of the outer loop for a branch-list
  request or for its inner loop, and the outer loop at any repository; and a run that
  has entered the outer loop ends with the stop of that loop.
\<close>

theorem rate_limit_backoff:
  assumes "remaining r = Quota n" and "n < 10"
  shows "((\<forall>k<10. \<not> SIGNINT ((sleep e ^^ k) w)) \<longrightarrow>
            rate_limit_check e r w =
              (Ok (), (sleep e ^^ 10) (emit (Log ApproachingRateLimit) w)))
       \<and> (\<forall>k<10. SIGNINT ((sleep e ^^ k) w) \<and> (\<forall>j<k. \<not> SIGNINT ((sleep e ^^ j) w)) \<longrightarrow>
            rate_limit_check e r w =
              (Stop (SysExit 0), (sleep e ^^ k) (emit (Log ApproachingRateLimit) w)))
       \<and> (http_get e (tick v) u h = Response r
            \<and> rate_limit_check e r (advance e (emit (Request u h) v)) = (Stop (SysExit 0), v') \<longrightarrow>
            make_request e u h v = (Stop (SysExit 0), v')
            \<and> exit_status (Stop (SysExit 0)) = 0)
       \<and> (\<forall>w0 w1. isdir e (dest_arg c)
            \<and> make_request e (search_url (user c)) (headers_of c) w0 = (Stop (SysExit 0), w1) \<longrightarrow>
            main e c w0 = (Stop (SysExit 0), w1) \<and> exit_status (fst (main e c w0)) = 0)
       \<and> (\<forall>rn b t bt v0 v1. log_fmt ''Fetching'' rn b = Inr t
            \<and> make_request e
                 (archive_url (user c) (str_of e rn) (str_of e b) (file_extension c))
                 (headers_of c) v0 = (Stop (SysExit 0), v1) \<longrightarrow>
            fetch_branch e c ts rn b bt v0 = (Stop (SysExit 0), v1))
       \<and> (\<forall>rn pre b post bt bt1 v0 v1 v2.
            fetch_branches e c ts rn pre bt v0 = (Ok bt1, v1) \<and> \<not> SIGNINT v1
            \<and> fetch_branch e c ts rn b bt1 v1 = (Stop (SysExit 0), v2) \<longrightarrow>
            fetch_branches e c ts rn (pre @ b # post) bt v0 = (Stop (SysExit 0), v2))
       \<and> (\<forall>repo rn db bt v0 v1.
            getitem_str repo ''name'' = Inr rn \<and> getitem_str repo ''default_branch'' = Inr db
            \<and> all_branches c
            \<and> make_request e (branches_url (user c) (str_of e rn)) (headers_of c) v0
                = (Stop (SysExit 0), v1) \<longrightarrow>
            process_repo e c ts repo bt v0 = (Stop (SysExit 0), v1))
       \<and> (\<forall>repo rn db bs bt v0 v1 v2.
            getitem_str repo ''name'' = Inr rn \<and> getitem_str repo ''default_branch'' = Inr db
            \<and> (if all_branches c
                then \<exists>r1 j. make_request e (branches_url (user c) (str_of e rn)) (headers_of c) v0
                               = (Ok r1, v1)
                       \<and> json r1 = Some j \<and> branch_names (iter j) = Inr bs
                else bs = [db] \<and> v1 = v0)
            \<and> fetch_branches e c ts rn bs bt v1 = (Stop (SysExit 0), v2) \<longrightarrow>
            process_repo e c ts repo bt v0 = (Stop (SysExit 0), v2))
       \<and> (\<forall>pre repo post bt bt1 v0 v1 v2.
            fetch_repos e c ts pre bt v0 = (Ok bt1, v1)
            \<and> process_repo e c ts repo bt1 v1 = (Stop (SysExit 0), v2) \<longrightarrow>
            fetch_repos e c ts (pre @ repo # post) bt v0 = (Stop (SysExit 0), v2))
       \<and> (\<forall>w0 repos w5 w1. loop_entry e c w0 = Some (ts, repos, w5)
            \<and> fetch_repos e c ts (iter repos) 0 w5 = (Stop (SysExit 0), w1) \<longrightarrow>
            main e c w0 = (Stop (SysExit 0), w1) \<and> exit_status (fst (main e c w0)) = 0)"
proof -
  have flag: "SIGNINT ((sleep e ^^ k) (emit ev w)) = SIGNINT ((sleep e ^^ k) w)" for k ev
    by (simp add: sleeps_SIGNINT)
  have rl: "rate_limit_check e r w = wait_loop e 10 (emit (Log ApproachingRateLimit) w)"
    using assms
    by (simp add: rate_limit_check_def RATE_LIMIT_WARNING_THRESHOLD_def
        RATE_LIMIT_WAIT_TIME_S_def)
  have completes: "(\<forall>k<10. \<not> SIGNINT ((sleep e ^^ k) w)) \<longrightarrow>
      rate_limit_check e r w = (Ok (), (sleep e ^^ 10) (emit (Log ApproachingRateLimit) w))"
  proof
    assume "\<forall>k<10. \<not> SIGNINT ((sleep e ^^ k) w)"
    then show "rate_limit_check e r w =
        (Ok (), (sleep e ^^ 10) (emit (Log ApproachingRateLimit) w))"
      unfolding rl by (intro wait_loop_completes) (simp add: flag)
  qed
  have cancelled: "\<forall>k<10. SIGNINT ((sleep e ^^ k) w) \<and> (\<forall>j<k. \<not> SIGNINT ((sleep e ^^ j) w)) \<longrightarrow>
      rate_limit_check e r w =
        (Stop (SysExit 0), (sleep e ^^ k) (emit (Log ApproachingRateLimit) w))"
  proof (intro allI impI)
    fix k :: nat
    assume "k < 10"
      and "SIGNINT ((sleep e ^^ k) w) \<and> (\<forall>j<k. \<not> SIGNINT ((sleep e ^^ j) w))"
    then show "rate_limit_check e r w =
        (Stop (SysExit 0), (sleep e ^^ k) (emit (Log ApproachingRateLimit) w))"
      unfolding rl by (intro wait_loop_cancelled) (simp_all add: flag)
  qed
  have request: "http_get e (tick v) u h = Response r
        \<and> rate_limit_check e r (advance e (emit (Request u h) v)) = (Stop (SysExit 0), v') \<longrightarrow>
      make_request e u h v = (Stop (SysExit 0), v') \<and> exit_status (Stop (SysExit 0)) = 0"
    by (simp add: make_request_def)
  have search: "\<forall>w0 w1. isdir e (dest_arg c)
        \<and> make_request e (search_url (user c)) (headers_of c) w0 = (Stop (SysExit 0), w1) \<longrightarrow>
      main e c w0 = (Stop (SysExit 0), w1) \<and> exit_status (fst (main e c w0)) = 0"
    by (simp add: main_stop_search)
  have archive: "\<forall>rn b t bt v0 v1. log_fmt ''Fetching'' rn b = Inr t
        \<and> make_request e
             (archive_url (user c) (str_of e rn) (str_of e b) (file_extension c))
             (headers_of c) v0 = (Stop (SysExit 0), v1) \<longrightarrow>
      fetch_branch e c ts rn b bt v0 = (Stop (SysExit 0), v1)"
    by (simp add: fetch_branch_stop)
  have inner: "\<forall>rn pre b post bt bt1 v0 v1 v2.
        fetch_branches e c ts rn pre bt v0 = (Ok bt1, v1) \<and> \<not> SIGNINT v1
        \<and> fetch_branch e c ts rn b bt1 v1 = (Stop (SysExit 0), v2) \<longrightarrow>
      fetch_branches e c ts rn (pre @ b # post) bt v0 = (Stop (SysExit 0), v2)"
    by (simp add: fetch_branches_stop)
  have listing: "\<forall>repo rn db bt v0 v1.
        getitem_str repo ''name'' = Inr rn \<and> getitem_str repo ''default_branch'' = Inr db
        \<and> all_branches c
        \<and> make_request e (branches_url (user c) (str_of e rn)) (headers_of c) v0
            = (Stop (SysExit 0), v1) \<longrightarrow>
      process_repo e c ts repo bt v0 = (Stop (SysExit 0), v1)"
    by (simp add: process_repo_stop_listing)
  have body: "\<forall>repo rn db bs bt v0 v1 v2.
        getitem_str repo ''name'' = Inr rn \<and> getitem_str repo ''default_branch'' = Inr db
        \<and> (if all_branches c
            then \<exists>r1 j. make_request e (branches_url (user c) (str_of e rn)) (headers_of c) v0
                           = (Ok r1, v1)
                   \<and> json r1 = Some j \<and> branch_names (iter j) = Inr bs
            else bs = [db] \<and> v1 = v0)
        \<and> fetch_branches e c ts rn bs bt v1 = (Stop (SysExit 0), v2) \<longrightarrow>
      process_repo e c ts repo bt v0 = (Stop (SysExit 0), v2)"
    by (intro allI impI) (rule process_repo_stop_loop, auto)
  have outer: "\<forall>pre repo post bt bt1 v0 v1 v2.
        fetch_repos e c ts pre bt v0 = (Ok bt1, v1)
        \<and> process_repo e c ts repo bt1 v1 = (Stop (SysExit 0), v2) \<longrightarrow>
      fetch_repos e c ts (pre @ repo # post) bt v0 = (Stop (SysExit 0), v2)"
    by (simp add: fetch_repos_stop)
  have run: "\<forall>w0 repos w5 w1. loop_entry e c w0 = Some (ts, repos, w5)
        \<and> fetch_repos e c ts (iter repos) 0 w5 = (Stop (SysExit 0), w1) \<longrightarrow>
      main e c w0 = (Stop (SysExit 0), w1) \<and> exit_status (fst (main e c w0)) = 0"
    by (simp add: main_from_loop_entry)
  show ?thesis
    by (intro conjI)
       (fact completes, fact cancelled, fact request, fact search, fact archive, fact inner,
        fact listing, fact body, fact outer, fact run)
qed

text \<open>
  On a response with 3 requests left: with no signal the wait takes ten sleeps; with a
  signal during the third sleep the wait exits after three. Then three runs on the
  account of the example, each cancelled during a wait and each ending with status 0:
  one where the repository-list response carries the low quota, one where the branch
  list of \<^verbatim>\<open>b\<close> does, one where the archive of the second branch of \<^verbatim>\<open>a\<close> does.
\<close>

theorem rate_limit_backoff_witness:
  "remaining (json_response (Quota 3) (JArr [])) = Quota 3 \<and> (3::int) < 10
   \<and> rate_limit_check (ex_env never (ex_net NoQuotaHeader)) (json_response (Quota 3) (JArr []))
        ex_world
     = (Ok (), \<lparr>SIGNINT = False, tick = 10,
          trace = Log ApproachingRateLimit # replicate 10 Sleep, files = Map.empty\<rparr>)
   \<and> rate_limit_check (ex_env (during 2) (ex_net NoQuotaHeader))
        (json_response (Quota 3) (JArr [])) ex_world
     = (Stop (SysExit 0), \<lparr>SIGNINT = True, tick = 3,
          trace = [Log ApproachingRateLimit, Sleep, Sleep, Sleep], files = Map.empty\<rparr>)
   \<and> main (ex_env (during 1)
        (low_on ''https://api.github.com/search/repositories?q=user:u'' (Quota 3)
           (ex_net NoQuotaHeader))) ex_config ex_world
     = (Stop (SysExit 0), \<lparr>SIGNINT = True, tick = 2,
          trace = [Request ''https://api.github.com/search/repositories?q=user:u'' [],
                   Log ApproachingRateLimit, Sleep],
          files = Map.empty\<rparr>)
   \<and> exit_status (fst (main (ex_env (during 1)
        (low_on ''https://api.github.com/search/repositories?q=user:u'' (Quota 3)
           (ex_net NoQuotaHeader))) ex_config ex_world)) = 0
   \<and> main (ex_env (during 10) (ex_net (Quota 9))) ex_config ex_world
     = (Stop (SysExit 0), \<lparr>SIGNINT = True, tick = 11,
          trace = [Request ''https://api.github.com/search/repositories?q=user:u'' [],
                   ClockRead, Log (StartingBackup ''u'' False ''T0''), Makedirs ''/backup/T0'',
                   Request ''https://api.github.com/repos/u/a/branches'' [],
                   Request ''https://github.com/u/a/archive/refs/heads/main.zip'' [],
                   Write ''/backup/T0/a_main.zip'' [1, 2, 3],
                   Request ''https://github.com/u/a/archive/refs/heads/dev.zip'' [],
                   Write ''/backup/T0/a_dev.zip'' [4, 5],
                   Request ''https://api.github.com/repos/u/b/branches'' [],
                   Log ApproachingRateLimit, Sleep, Sleep],
          files = [''/backup/T0/a_main.zip'' \<mapsto> [1, 2, 3],
                   ''/backup/T0/a_dev.zip'' \<mapsto> [4, 5]]\<rparr>)
   \<and> exit_status (fst (main (ex_env (during 10) (ex_net (Quota 9))) ex_config ex_world)) = 0
   \<and> main (ex_env (during 8)
        (low_on ''https://github.com/u/a/archive/refs/heads/dev.zip'' (Quota 3)
           (ex_net NoQuotaHeader))) ex_config ex_world
     = (Stop (SysExit 0), \<lparr>SIGNINT = True, tick = 9,
          trace = [Request ''https://api.github.com/search/repositories?q=user:u'' [],
                   ClockRead, Log (StartingBackup ''u'' False ''T0''), Makedirs ''/backup/T0'',
                   Request ''https://api.github.com/repos/u/a/branches'' [],
                   Request ''https://github.com/u/a/archive/refs/heads/main.zip'' [],
                   Write ''/backup/T0/a_main.zip'' [1, 2, 3],
                   Request ''https://github.com/u/a/archive/refs/heads/dev.zip'' [],
                   Log ApproachingRateLimit, Sleep, Sleep],
          files = [''/backup/T0/a_main.zip'' \<mapsto> [1, 2, 3]]\<rparr>)
   \<and> exit_status (fst (main (ex_env (during 8)
        (low_on ''https://github.com/u/a/archive/refs/heads/dev.zip'' (Quota 3)
           (ex_net NoQuotaHeader))) ex_config ex_world)) = 0"
proof -
  let ?r = "json_response (Quota 3) (JArr [])"
  let ?quiet = "ex_env never (ex_net NoQuotaHeader)"
  let ?loud = "ex_env (during 2) (ex_net NoQuotaHeader)"
  let ?search = "''https://api.github.com/search/repositories?q=user:u''"
  let ?lista = "''https://api.github.com/repos/u/a/branches''"
  let ?listb = "''https://api.github.com/repos/u/b/branches''"
  let ?main = "''https://github.com/u/a/archive/refs/heads/main.zip''"
  let ?dev = "''https://github.com/u/a/archive/refs/heads/dev.zip''"
  let ?repos = "JArr [named ''a'', named ''b'']"
  let ?W5 = "\<lparr>SIGNINT = False, tick = 3,
      trace = [Request ?search [], ClockRead, Log (StartingBackup ''u'' False ''T0''),
               Makedirs ''/backup/T0''],
      files = Map.empty\<rparr>"
  have h1: "remaining ?r = Quota 3" by (simp add: json_response_def)
  have h2: "(3::int) < 10" by simp
  have h9: "(9::int) < 10" by simp
  have w: "w = \<lparr>SIGNINT = SIGNINT w, tick = tick w, trace = trace w, files = files w\<rparr>"
    for w :: world by simp

  \<comment> \<open>the wait alone\<close>
  have quiet: "\<forall>k<10. \<not> SIGNINT ((sleep ?quiet ^^ k) ex_world)"
    by (simp add: sleeps_SIGNINT ex_world_def ex_env_def never_def)
  have loud: "SIGNINT ((sleep ?loud ^^ 3) ex_world)
      \<and> (\<forall>j<3. \<not> SIGNINT ((sleep ?loud ^^ j) ex_world))"
    by (simp add: sleeps_SIGNINT ex_world_def ex_env_def during_def)
  have a: "rate_limit_check ?quiet ?r ex_world
      = (Ok (), (sleep ?quiet ^^ 10) (emit (Log ApproachingRateLimit) ex_world))"
    using rate_limit_backoff [OF h1 h2, where e = ?quiet and w = ex_world, THEN conjunct1] quiet
    by blast
  have b: "rate_limit_check ?loud ?r ex_world
      = (Stop (SysExit 0), (sleep ?loud ^^ 3) (emit (Log ApproachingRateLimit) ex_world))"
    using rate_limit_backoff [OF h1 h2, where e = ?loud and w = ex_world,
        THEN conjunct2, THEN conjunct1] loud
    by simp
  have a': "(sleep ?quiet ^^ 10) (emit (Log ApproachingRateLimit) ex_world)
      = \<lparr>SIGNINT = False, tick = 10,
          trace = Log ApproachingRateLimit # replicate 10 Sleep, files = Map.empty\<rparr>"
    by (subst w) (simp add: sleeps_SIGNINT ex_world_def ex_env_def never_def)
  have b': "(sleep ?loud ^^ 3) (emit (Log ApproachingRateLimit) ex_world)
      = \<lparr>SIGNINT = True, tick = 3,
          trace = [Log ApproachingRateLimit, Sleep, Sleep, Sleep], files = Map.empty\<rparr>"
    by (subst w) (simp add: sleeps_SIGNINT ex_world_def ex_env_def during_def
        numeral_3_eq_3 less_Suc_eq)

  \<comment> \<open>the repository-list request\<close>
  let ?ES = "ex_env (during 1) (low_on ?search (Quota 3) (ex_net NoQuotaHeader))"
  let ?S1 = "\<lparr>SIGNINT = True, tick = 2,
      trace = [Request ?search [], Log ApproachingRateLimit, Sleep], files = Map.empty\<rparr>"
  have s1: "isdir ?ES (dest_arg ex_config)"
    by (simp add: ex_env_def ex_config_def)
  have s2: "make_request ?ES (search_url (user ex_config)) (headers_of ex_config) ex_world
      = (Stop (SysExit 0), ?S1)"
    by (simp add: ex_defs)
  have s: "main ?ES ex_config ex_world = (Stop (SysExit 0), ?S1)
      \<and> exit_status (fst (main ?ES ex_config ex_world)) = 0"
    using rate_limit_backoff [OF h1 h2, where e = ?ES and c = ex_config,
        THEN conjunct2, THEN conjunct2, THEN conjunct2, THEN conjunct1, rule_format,
        of ex_world ?S1] s1 s2
    by blast

  \<comment> \<open>the branch-list request of the second repository\<close>
  let ?EL = "ex_env (during 10) (ex_net (Quota 9))"
  let ?rb = "json_response (Quota 9) (JArr [named ''main''])"
  let ?fa = "[''/backup/T0/a_main.zip'' \<mapsto> [1, 2, 3], ''/backup/T0/a_dev.zip'' \<mapsto> [4, 5]]"
  let ?L1 = "\<lparr>SIGNINT = False, tick = 8,
      trace = [Request ?search [], ClockRead, Log (StartingBackup ''u'' False ''T0''),
               Makedirs ''/backup/T0'', Request ?lista [], Request ?main [],
               Write ''/backup/T0/a_main.zip'' [1, 2, 3], Request ?dev [],
               Write ''/backup/T0/a_dev.zip'' [4, 5]],
      files = ?fa\<rparr>"
  let ?L2 = "\<lparr>SIGNINT = True, tick = 11,
      trace = [Request ?search [], ClockRead, Log (StartingBackup ''u'' False ''T0''),
               Makedirs ''/backup/T0'', Request ?lista [], Request ?main [],
               Write ''/backup/T0/a_main.zip'' [1, 2, 3], Request ?dev [],
               Write ''/backup/T0/a_dev.zip'' [4, 5], Request ?listb [],
               Log ApproachingRateLimit, Sleep, Sleep],
      files = ?fa\<rparr>"
  have hb: "remaining ?rb = Quota 9" by (simp add: json_response_def)
  note TL = rate_limit_backoff [OF hb h9, where e = ?EL and c = ex_config and ts = "''T0''"]
  have l1: "loop_entry ?EL ex_config ex_world = Some (''T0'', ?repos, ?W5)"
    by (simp add: ex_defs)
  have l2: "fetch_repos ?EL ex_config ''T0'' [named ''a''] 0 ?W5 = (Ok 5, ?L1)"
    by (simp add: ex_defs)
  have l3: "getitem_str (named ''b'') ''name'' = Inr (JStr ''b'')"
    "getitem_str (named ''b'') ''default_branch'' = Inr (JStr ''main'')"
    "all_branches ex_config"
    by (simp_all add: named_def ex_config_def)
  have l4: "make_request ?EL (branches_url (user ex_config) (str_of ?EL (JStr ''b'')))
      (headers_of ex_config) ?L1 = (Stop (SysExit 0), ?L2)"
    by (simp add: ex_defs)
  have l5: "process_repo ?EL ex_config ''T0'' (named ''b'') 5 ?L1 = (Stop (SysExit 0), ?L2)"
    using TL [THEN conjunct2, THEN conjunct2, THEN conjunct2, THEN conjunct2, THEN conjunct2,
        THEN conjunct2, THEN conjunct1, rule_format,
        of "named ''b''" "JStr ''b''" "JStr ''main''" ?L1 ?L2 5] l3 l4
    by blast
  have l6: "fetch_repos ?EL ex_config ''T0'' ([named ''a''] @ named ''b'' # []) 0 ?W5
      = (Stop (SysExit 0), ?L2)"
    using TL [THEN conjunct2, THEN conjunct2, THEN conjunct2, THEN conjunct2, THEN conjunct2,
        THEN conjunct2, THEN conjunct2, THEN conjunct2, THEN conjunct1, rule_format,
        of "[named ''a'']" 0 ?W5 5 ?L1 "named ''b''" ?L2 "[]"] l2 l5
    by blast
  have l: "main ?EL ex_config ex_world = (Stop (SysExit 0), ?L2)
      \<and> exit_status (fst (main ?EL ex_config ex_world)) = 0"
    using TL [THEN conjunct2, THEN conjunct2, THEN conjunct2, THEN conjunct2, THEN conjunct2,
        THEN conjunct2, THEN conjunct2, THEN conjunct2, THEN conjunct2, rule_format,
        of ex_world ?repos ?W5 ?L2] l1 l6
    by simp

  \<comment> \<open>an archive request\<close>
  let ?EA = "ex_env (during 8) (low_on ?dev (Quota 3) (ex_net NoQuotaHeader))"
  let ?ra = "json_response (Quota 10) (JArr [named ''main'', named ''dev''])"
  let ?rd = "(archive_response [4, 5])\<lparr>remaining := Quota 3\<rparr>"
  let ?f1 = "[''/backup/T0/a_main.zip'' \<mapsto> [1, 2, 3]]"
  let ?A1 = "\<lparr>SIGNINT = False, tick = 4,
      trace = [Request ?search [], ClockRead, Log (StartingBackup ''u'' False ''T0''),
               Makedirs ''/backup/T0'', Request ?lista []],
      files = Map.empty\<rparr>"
  let ?A2 = "\<lparr>SIGNINT = False, tick = 6,
      trace = [Request ?search [], ClockRead, Log (StartingBackup ''u'' False ''T0''),
               Makedirs ''/backup/T0'', Request ?lista [], Request ?main [],
               Write ''/backup/T0/a_main.zip'' [1, 2, 3]],
      files = ?f1\<rparr>"
  let ?A2r = "advance ?EA (emit (Request ?dev []) ?A2)"
  let ?A3 = "\<lparr>SIGNINT = True, tick = 9,
      trace = [Request ?search [], ClockRead, Log (StartingBackup ''u'' False ''T0''),
               Makedirs ''/backup/T0'', Request ?lista [], Request ?main [],
               Write ''/backup/T0/a_main.zip'' [1, 2, 3], Request ?dev [],
               Log ApproachingRateLimit, Sleep, Sleep],
      files = ?f1\<rparr>"
  have hd: "remaining ?rd = Quota 3" by (simp add: archive_response_def)
  note TA = rate_limit_backoff [OF hd h2, where e = ?EA and c = ex_config and ts = "''T0''"
      and w = ?A2r and v = ?A2 and u = ?dev and h = "[]" and v' = ?A3]
  have a1: "loop_entry ?EA ex_config ex_world = Some (''T0'', ?repos, ?W5)"
    by (simp add: ex_defs)
  have a2: "make_request ?EA (branches_url (user ex_config) (str_of ?EA (JStr ''a'')))
      (headers_of ex_config) ?W5 = (Ok ?ra, ?A1)"
    by (simp add: ex_defs)
  have a3: "fetch_branches ?EA ex_config ''T0'' (JStr ''a'') [JStr ''main''] 0 ?A1 = (Ok 3, ?A2)"
    by (simp add: ex_defs)
  have a4: "log_fmt ''Fetching'' (JStr ''a'') (JStr ''dev'')
      = Inr (ljust 8 ''Fetching'' @ ''  '' @ ljust 20 ''a'' @ '' '' @ ljust 20 ''[dev]'')"
    by simp
  have a5: "http_get ?EA (tick ?A2) ?dev [] = Response ?rd"
    by (simp add: ex_defs)
  have a6: "SIGNINT ((sleep ?EA ^^ 2) ?A2r) \<and> (\<forall>j<2. \<not> SIGNINT ((sleep ?EA ^^ j) ?A2r))"
    by (simp add: sleeps_SIGNINT ex_env_def during_def advance_def emit_def signal_handler_def
        numeral_2_eq_2 less_Suc_eq)
  have a7: "(sleep ?EA ^^ 2) (emit (Log ApproachingRateLimit) ?A2r) = ?A3"
    by (simp add: ex_defs numeral_2_eq_2)
  have a8: "rate_limit_check ?EA ?rd ?A2r = (Stop (SysExit 0), ?A3)"
    using TA [THEN conjunct2, THEN conjunct1, rule_format, of 2] a6 a7 by simp
  have a9: "make_request ?EA ?dev [] ?A2 = (Stop (SysExit 0), ?A3)"
    using TA [THEN conjunct2, THEN conjunct2, THEN conjunct1] a5 a8 by blast
  have urls: "archive_url (user ex_config) (str_of ?EA (JStr ''a'')) (str_of ?EA (JStr ''dev''))
      (file_extension ex_config) = ?dev" "headers_of ex_config = []"
    by (simp_all add: ex_defs)
  have a10: "fetch_branch ?EA ex_config ''T0'' (JStr ''a'') (JStr ''dev'') 3 ?A2
      = (Stop (SysExit 0), ?A3)"
    using TA [THEN conjunct2, THEN conjunct2, THEN conjunct2, THEN conjunct2, THEN conjunct1,
        rule_format, OF conjI [OF a4]] a9 urls
    by simp
  have a11: "fetch_branches ?EA ex_config ''T0'' (JStr ''a'') ([JStr ''main''] @ JStr ''dev'' # [])
      0 ?A1 = (Stop (SysExit 0), ?A3)"
    using TA [THEN conjunct2, THEN conjunct2, THEN conjunct2, THEN conjunct2, THEN conjunct2,
        THEN conjunct1, rule_format, OF conjI [OF a3 conjI [OF _ a10]]]
    by simp
  have a12: "getitem_str (named ''a'') ''name'' = Inr (JStr ''a'')"
    "getitem_str (named ''a'') ''default_branch'' = Inr (JStr ''main'')"
    "all_branches ex_config"
    "json ?ra = Some (JArr [named ''main'', named ''dev''])"
    "branch_names (iter (JArr [named ''main'', named ''dev''])) = Inr [JStr ''main'', JStr ''dev'']"
    by (simp_all add: named_def ex_config_def json_response_def)
  have a13: "process_repo ?EA ex_config ''T0'' (named ''a'') 0 ?W5 = (Stop (SysExit 0), ?A3)"
    using TA [THEN conjunct2, THEN conjunct2, THEN conjunct2, THEN conjunct2, THEN conjunct2,
        THEN conjunct2, THEN conjunct2, THEN conjunct1, rule_format,
        of "named ''a''" "JStr ''a''" "JStr ''main''" ?W5 ?A1 "[JStr ''main'', JStr ''dev'']"
          0 ?A3] a2 a11 a12
    by auto
  have a14: "fetch_repos ?EA ex_config ''T0'' ([] @ named ''a'' # [named ''b'']) 0 ?W5
      = (Stop (SysExit 0), ?A3)"
    using TA [THEN conjunct2, THEN conjunct2, THEN conjunct2, THEN conjunct2, THEN conjunct2,
        THEN conjunct2, THEN conjunct2, THEN conjunct2, THEN conjunct1, rule_format,
        of "[]" 0 ?W5 0 ?W5 "named ''a''" ?A3 "[named ''b'']"] a13
    by simp
  have am: "main ?EA ex_config ex_world = (Stop (SysExit 0), ?A3)
      \<and> exit_status (fst (main ?EA ex_config ex_world)) = 0"
    using TA [THEN conjunct2, THEN conjunct2, THEN conjunct2, THEN conjunct2, THEN conjunct2,
        THEN conjunct2, THEN conjunct2, THEN conjunct2, THEN conjunct2, rule_format,
        of ex_world ?repos ?W5 ?A3] a1 a14
    by simp
  show ?thesis
    using h1 h2 a b a' b' s l am by simp
qed

subsection \<open>The report\<close>

lemma cancelled_default_fetch_repos:
  "\<not> all_branches c \<Longrightarrow> SIGNINT v \<Longrightarrow> list_all has_names rs \<Longrightarrow>
   fetch_repos e c ts rs bt v = (Ok bt, v)"
proof (induction rs)
  case Nil
  show ?case by simp
next
  case (Cons repo rs)
  from Cons.prems(3) obtain rn db where
    "getitem_str repo ''name'' = Inr rn" "getitem_str repo ''default_branch'' = Inr db"
    by (cases "getitem_str repo ''name''"; cases "getitem_str repo ''default_branch''")
       (auto simp: has_names_def)
  with Cons.prems(1,2) have "process_repo e c ts repo bt v = (Ok bt, v)"
    by (simp add: process_repo_def cancelled_fetch_branches)
  with Cons show ?case by simp
qed

lemma loop_entry_written:
  assumes "loop_entry e c w = Some (ts, repos, w5)"
  shows "written (trace w5) = written (trace w)"
proof -
  obtain y w1 where req: "make_request e (search_url (user c)) (headers_of c) w = (y, w1)"
    by (cases "make_request e (search_url (user c)) (headers_of c) w")
  from assms req have "writes_of (trace w5) = writes_of (trace w1)"
    by (auto simp: loop_entry_def clock_now_def Let_def
        split: res.splits option.splits sum.splits prod.splits if_splits
        dest!: check_shape_cases)
  with make_request_trace(2) [OF req] show ?thesis
    by (simp add: written_def)
qed

lemma cancelled_run_reports:
  assumes "main e c w = (x, w')"
    and "loop_entry e c w = Some (ts, repos, w5)" and "iter repos = pre @ post"
    and "fetch_repos e c ts pre 0 w5 = (Ok bt, v)" and "SIGNINT v"
    and "post = [] \<or> \<not> all_branches c \<and> list_all has_names post"
  shows "x = Ok () \<and> w' = finalize e c ts bt v
     \<and> trace w' = trace v @
         [ClockRead, ClockRead,
          Log (BackupCompleted (now e (tick v)) bt (dest c) (now e (Suc (tick v))) ts)]
     \<and> bt + written (trace w) = written (trace v)"
proof -
  have "fetch_repos e c ts post bt v = (Ok bt, v)"
    using assms(5,6) by (auto simp: cancelled_default_fetch_repos)
  then have "fetch_repos e c ts (iter repos) 0 w5 = (Ok bt, v)"
    using assms(3,4) by (simp add: fetch_repos_append)
  with main_from_loop_entry [OF assms(2)] assms(1) have
    fin: "x = Ok ()" "w' = finalize e c ts bt v"
    by simp_all
  have "bt + written (trace w5) = written (trace v)"
    using fetch_repos_result [OF assms(4)] by (simp add: loop_result_def)
  then have "bt + written (trace w) = written (trace v)"
    using loop_entry_written [OF assms(2)] by simp
  with fin show ?thesis
    by (simp add: finalize_def clock_now_def)
qed

text \<open>
  C8, as the program has it. A run ends by reaching the end of the module or by stopping
  early. When it reaches the end, the last thing it does is read the clock twice and log
  the completion line, which carries the two clock values, the session timestamp (the
  clock value read after the repository list came, which names the session directory)
  and the number of bytes written during the run; the exit status is 0. A cancellation
  seen at a branch-iteration check leads there: the check leaves the inner loop with the
  counter and the world as they are; and once a part of the repository list has been
  processed and the flag is set, with no repository left, or in default-branch mode with
  the remaining records well formed, nothing more is done before the completion line,
  which reports the bytes written so far. When a run stops with \<^verbatim>\<open>exit(0)\<close>, it is
  inside a backoff wait: the flag is set, the trace ends with the warning and fewer than
  ten sleeps, and no completion line has been logged. The only other exit code is -1.
\<close>

theorem run_report:
  assumes "main e c w = (x, w')"
  shows "(x = Ok () \<longrightarrow>
           (\<exists>r w1 k n tr.
               make_request e (search_url (user c)) (headers_of c) w = (Ok r, w1)
             \<and> tick w' = Suc (Suc k)
             \<and> trace w' = tr @ [ClockRead, ClockRead,
                  Log (BackupCompleted (now e k) n (dest c) (now e (Suc k)) (now e (tick w1)))]
             \<and> completed_logs (trace w') = completed_logs (trace w) @ [n]
             \<and> n + written (trace w) = written (trace w')
             \<and> makedirs_of (trace w') = makedirs_of (trace w) @ [dest c @ now e (tick w1)])
           \<and> exit_status x = 0)
       \<and> (\<forall>rn bs bt v. SIGNINT v \<longrightarrow> fetch_branches e c ts rn bs bt v = (Ok bt, v))
       \<and> (\<forall>repos w5 pre post bt v.
             loop_entry e c w = Some (ts, repos, w5) \<and> iter repos = pre @ post
             \<and> fetch_repos e c ts pre 0 w5 = (Ok bt, v) \<and> SIGNINT v
             \<and> (post = [] \<or> \<not> all_branches c \<and> list_all has_names post) \<longrightarrow>
             x = Ok () \<and> w' = finalize e c ts bt v
             \<and> trace w' = trace v @
                 [ClockRead, ClockRead,
                  Log (BackupCompleted (now e (tick v)) bt (dest c) (now e (Suc (tick v))) ts)]
             \<and> bt + written (trace w) = written (trace v)
             \<and> exit_status x = 0)
       \<and> (\<forall>k. x = Stop (SysExit k) \<longrightarrow>
             (k = - 1
              \<or> k = 0 \<and> SIGNINT w'
                \<and> (\<exists>tr j. j < 10 \<and> trace w' = tr @ Log ApproachingRateLimit # replicate j Sleep))
             \<and> completed_logs (trace w') = completed_logs (trace w))"
proof -
  have ends: "x = Ok () \<longrightarrow>
           (\<exists>r w1 k n tr.
               make_request e (search_url (user c)) (headers_of c) w = (Ok r, w1)
             \<and> tick w' = Suc (Suc k)
             \<and> trace w' = tr @ [ClockRead, ClockRead,
                  Log (BackupCompleted (now e k) n (dest c) (now e (Suc k)) (now e (tick w1)))]
             \<and> completed_logs (trace w') = completed_logs (trace w) @ [n]
             \<and> n + written (trace w) = written (trace w')
             \<and> makedirs_of (trace w') = makedirs_of (trace w) @ [dest c @ now e (tick w1)])
           \<and> exit_status x = 0"
    using main_result [OF assms] by blast
  have check: "\<forall>rn bs bt v. SIGNINT v \<longrightarrow> fetch_branches e c ts rn bs bt v = (Ok bt, v)"
    by (simp add: cancelled_fetch_branches)
  have cut: "\<forall>repos w5 pre post bt v.
             loop_entry e c w = Some (ts, repos, w5) \<and> iter repos = pre @ post
             \<and> fetch_repos e c ts pre 0 w5 = (Ok bt, v) \<and> SIGNINT v
             \<and> (post = [] \<or> \<not> all_branches c \<and> list_all has_names post) \<longrightarrow>
             x = Ok () \<and> w' = finalize e c ts bt v
             \<and> trace w' = trace v @
                 [ClockRead, ClockRead,
                  Log (BackupCompleted (now e (tick v)) bt (dest c) (now e (Suc (tick v))) ts)]
             \<and> bt + written (trace w) = written (trace v)
             \<and> exit_status x = 0"
  proof (intro allI impI)
    fix repos w5 pre post bt v
    assume h: "loop_entry e c w = Some (ts, repos, w5) \<and> iter repos = pre @ post
             \<and> fetch_repos e c ts pre 0 w5 = (Ok bt, v) \<and> SIGNINT v
             \<and> (post = [] \<or> \<not> all_branches c \<and> list_all has_names post)"
    then have r: "x = Ok () \<and> w' = finalize e c ts bt v
             \<and> trace w' = trace v @
                 [ClockRead, ClockRead,
                  Log (BackupCompleted (now e (tick v)) bt (dest c) (now e (Suc (tick v))) ts)]
             \<and> bt + written (trace w) = written (trace v)"
      using cancelled_run_reports [OF assms, of ts repos w5 pre post bt v] by blast
    then have "exit_status x = 0" by simp
    with r show "x = Ok () \<and> w' = finalize e c ts bt v
             \<and> trace w' = trace v @
                 [ClockRead, ClockRead,
                  Log (BackupCompleted (now e (tick v)) bt (dest c) (now e (Suc (tick v))) ts)]
             \<and> bt + written (trace w) = written (trace v)
             \<and> exit_status x = 0"
      by blast
  qed
  have stops: "\<forall>k. x = Stop (SysExit k) \<longrightarrow>
             (k = - 1
              \<or> k = 0 \<and> SIGNINT w'
                \<and> (\<exists>tr j. j < 10 \<and> trace w' = tr @ Log ApproachingRateLimit # replicate j Sleep))
             \<and> completed_logs (trace w') = completed_logs (trace w)"
    using main_result [OF assms]
    by (simp add: ended_in_wait_def RATE_LIMIT_WAIT_TIME_S_def)
  show ?thesis
    by (intro conjI) (fact ends, fact check, fact cut, fact stops)
qed

text \<open>
  Four runs on the account of the example. With no signal the run reaches the end and
  reports the 6 bytes of its three archives. In default-branch mode with the signal
  during the download of \<^verbatim>\<open>a\<close>, the check before the branch of \<^verbatim>\<open>b\<close> sees the flag:
  nothing of \<^verbatim>\<open>b\<close> is requested and the run reports its 3 bytes. In all-branches mode
  with the signal during the download of the first branch of \<^verbatim>\<open>a\<close>, the run reports
  its 3 bytes as well. With 9 requests left on the branch list of \<^verbatim>\<open>b\<close> and a signal
  during the second sleep of the wait that follows, the wait exits with status 0.
\<close>

theorem run_report_witness:
  "fst (main (ex_env never (ex_net NoQuotaHeader)) ex_config ex_world) = Ok ()
   \<and> completed_logs (trace (snd (main (ex_env never (ex_net NoQuotaHeader)) ex_config
        ex_world))) = [6]
   \<and> written (trace (snd (main (ex_env never (ex_net NoQuotaHeader)) ex_config ex_world))) = 6
   \<and> main (ex_env (during 3) (ex_net NoQuotaHeader)) (ex_config\<lparr>all_branches := False\<rparr>)
        ex_world
     = (Ok (),
        \<lparr>SIGNINT = True, tick = 7,
         trace =
           [Request ''https://api.github.com/search/repositories?q=user:u'' [],
            ClockRead, Log (StartingBackup ''u'' False ''T0''), Makedirs ''/backup/T0'',
            Request ''https://github.com/u/a/archive/refs/heads/main.zip'' [],
            Write ''/backup/T0/a_main.zip'' [1, 2, 3],
            ClockRead, ClockRead, Log (BackupCompleted ''T1'' 3 ''/backup/'' ''T1'' ''T0'')],
         files = [''/backup/T0/a_main.zip'' \<mapsto> [1, 2, 3]]\<rparr>)
   \<and> fetch_branches (ex_env (during 3) (ex_net NoQuotaHeader))
        (ex_config\<lparr>all_branches := False\<rparr>) ''T0'' (JStr ''b'') [JStr ''main''] 3
        (ex_world\<lparr>SIGNINT := True\<rparr>)
     = (Ok 3, ex_world\<lparr>SIGNINT := True\<rparr>)
   \<and> fst (main (ex_env (during 4) (ex_net NoQuotaHeader)) ex_config ex_world) = Ok ()
   \<and> completed_logs (trace (snd (main (ex_env (during 4) (ex_net NoQuotaHeader)) ex_config
        ex_world))) = [3]
   \<and> fst (main (ex_env (during 10) (ex_net (Quota 9))) ex_config ex_world) = Stop (SysExit 0)
   \<and> SIGNINT (snd (main (ex_env (during 10) (ex_net (Quota 9))) ex_config ex_world))
   \<and> completed_logs (trace (snd (main (ex_env (during 10) (ex_net (Quota 9))) ex_config
        ex_world))) = []"
proof -
  let ?search = "''https://api.github.com/search/repositories?q=user:u''"
  let ?lista = "''https://api.github.com/repos/u/a/branches''"
  let ?listb = "''https://api.github.com/repos/u/b/branches''"
  let ?main = "''https://github.com/u/a/archive/refs/heads/main.zip''"
  let ?repos = "JArr [named ''a'', named ''b'']"
  let ?f1 = "[''/backup/T0/a_main.zip'' \<mapsto> [1, 2, 3]]"
  let ?W5 = "\<lparr>SIGNINT = False, tick = 3,
      trace = [Request ?search [], ClockRead, Log (StartingBackup ''u'' False ''T0''),
               Makedirs ''/backup/T0''],
      files = Map.empty\<rparr>"
  have start: "completed_logs (trace ex_world) = []" "written (trace ex_world) = 0"
    by (simp_all add: ex_world_def written_def)

  \<comment> \<open>all branches fetched\<close>
  let ?e1 = "ex_env never (ex_net NoQuotaHeader)"
  obtain w1 where m1: "main ?e1 ex_config ex_world = (Ok (), w1)"
    by (simp add: ex_defs)
  have "\<exists>r v k n tr.
          make_request ?e1 (search_url (user ex_config)) (headers_of ex_config) ex_world
            = (Ok r, v)
        \<and> tick w1 = Suc (Suc k)
        \<and> trace w1 = tr @ [ClockRead, ClockRead,
            Log (BackupCompleted (now ?e1 k) n (dest ex_config) (now ?e1 (Suc k))
                   (now ?e1 (tick v)))]
        \<and> completed_logs (trace w1) = completed_logs (trace ex_world) @ [n]
        \<and> n + written (trace ex_world) = written (trace w1)
        \<and> makedirs_of (trace w1) = makedirs_of (trace ex_world) @
            [dest ex_config @ now ?e1 (tick v)]"
    using run_report [OF m1, THEN conjunct1] by simp
  then obtain n where n: "completed_logs (trace w1) = [n]" "n = written (trace w1)"
    using start by auto
  have "written (trace w1) = 6"
    using m1 by (auto simp: ex_defs written_def)
  with n have a: "completed_logs (trace w1) = [6]" "written (trace w1) = 6"
    by simp_all

  \<comment> \<open>default-branch mode, cut short at the check before \<open>b\<close>\<close>
  let ?e3 = "ex_env (during 3) (ex_net NoQuotaHeader)"
  let ?off = "ex_config\<lparr>all_branches := False\<rparr>"
  let ?V = "\<lparr>SIGNINT = True, tick = 5,
      trace = [Request ?search [], ClockRead, Log (StartingBackup ''u'' False ''T0''),
               Makedirs ''/backup/T0'', Request ?main [],
               Write ''/backup/T0/a_main.zip'' [1, 2, 3]],
      files = ?f1\<rparr>"
  obtain x3 w3 where m3: "main ?e3 ?off ex_world = (x3, w3)"
    by (cases "main ?e3 ?off ex_world")
  note T3 = run_report [OF m3, where ts = "''T0''"]
  have c1: "loop_entry ?e3 ?off ex_world = Some (''T0'', ?repos, ?W5)"
    by (simp add: ex_defs)
  have c2: "iter ?repos = [named ''a''] @ [named ''b'']" by simp
  have c3: "fetch_repos ?e3 ?off ''T0'' [named ''a''] 0 ?W5 = (Ok 3, ?V)"
    by (simp add: ex_defs)
  have c4: "SIGNINT ?V" by simp
  have c5: "[named ''b''] = [] \<or> \<not> all_branches ?off \<and> list_all has_names [named ''b'']"
    by (simp add: ex_config_def has_names_def named_def)
  have c6: "x3 = Ok () \<and> w3 = finalize ?e3 ?off ''T0'' 3 ?V"
    using T3 [THEN conjunct2, THEN conjunct2, THEN conjunct1, rule_format,
        of ?repos ?W5 "[named ''a'']" "[named ''b'']" 3 ?V] c1 c2 c3 c4 c5
    by blast
  have c7: "finalize ?e3 ?off ''T0'' 3 ?V
     = \<lparr>SIGNINT = True, tick = 7,
         trace =
           [Request ?search [], ClockRead, Log (StartingBackup ''u'' False ''T0''),
            Makedirs ''/backup/T0'', Request ?main [],
            Write ''/backup/T0/a_main.zip'' [1, 2, 3],
            ClockRead, ClockRead, Log (BackupCompleted ''T1'' 3 ''/backup/'' ''T1'' ''T0'')],
         files = ?f1\<rparr>"
    by (simp add: ex_defs)
  have c: "main ?e3 ?off ex_world
     = (Ok (),
        \<lparr>SIGNINT = True, tick = 7,
         trace =
           [Request ?search [], ClockRead, Log (StartingBackup ''u'' False ''T0''),
            Makedirs ''/backup/T0'', Request ?main [],
            Write ''/backup/T0/a_main.zip'' [1, 2, 3],
            ClockRead, ClockRead, Log (BackupCompleted ''T1'' 3 ''/backup/'' ''T1'' ''T0'')],
         files = ?f1\<rparr>)"
    using m3 c6 c7 by simp
  have k1: "SIGNINT (ex_world\<lparr>SIGNINT := True\<rparr>)" by simp
  have k: "fetch_branches ?e3 ?off ''T0'' (JStr ''b'') [JStr ''main''] 3
        (ex_world\<lparr>SIGNINT := True\<rparr>) = (Ok 3, ex_world\<lparr>SIGNINT := True\<rparr>)"
    using T3 [THEN conjunct2, THEN conjunct1, rule_format, OF k1] .

  \<comment> \<open>all-branches mode, cut short at the check before the second branch of \<open>a\<close>\<close>
  let ?e4 = "ex_env (during 4) (ex_net NoQuotaHeader)"
  let ?V4 = "\<lparr>SIGNINT = True, tick = 7,
      trace = [Request ?search [], ClockRead, Log (StartingBackup ''u'' False ''T0''),
               Makedirs ''/backup/T0'', Request ?lista [], Request ?main [],
               Write ''/backup/T0/a_main.zip'' [1, 2, 3], Request ?listb []],
      files = ?f1\<rparr>"
  obtain x4 w4 where m4: "main ?e4 ex_config ex_world = (x4, w4)"
    by (cases "main ?e4 ex_config ex_world")
  have d1: "loop_entry ?e4 ex_config ex_world = Some (''T0'', ?repos, ?W5)"
    by (simp add: ex_defs)
  have d2: "iter ?repos = [named ''a'', named ''b''] @ []" by simp
  have d3: "fetch_repos ?e4 ex_config ''T0'' [named ''a'', named ''b''] 0 ?W5 = (Ok 3, ?V4)"
    by (simp add: ex_defs)
  have d4: "SIGNINT ?V4" by simp
  have d5: "x4 = Ok () \<and> trace w4 = trace ?V4 @
                 [ClockRead, ClockRead,
                  Log (BackupCompleted (now ?e4 (tick ?V4)) 3 (dest ex_config)
                         (now ?e4 (Suc (tick ?V4))) ''T0'')]"
    using run_report [OF m4, where ts = "''T0''", THEN conjunct2, THEN conjunct2,
        THEN conjunct1, rule_format,
        of ?repos ?W5 "[named ''a'', named ''b'']" "[]" 3 ?V4] d1 d2 d3 d4
    by blast
  then have d: "x4 = Ok ()" "completed_logs (trace w4) = [3]"
    by simp_all

  \<comment> \<open>cancelled in a wait\<close>
  let ?e2 = "ex_env (during 10) (ex_net (Quota 9))"
  obtain w2 where m2: "main ?e2 ex_config ex_world = (Stop (SysExit 0), w2)"
    by (simp add: ex_defs)
  have b: "SIGNINT w2" "completed_logs (trace w2) = []"
    using run_report [OF m2, THEN conjunct2, THEN conjunct2, THEN conjunct2] start
    by simp_all
  show ?thesis
    using m1 m2 m4 a b c d k by simp
qed

text \<open>
  The last of these runs has reached the fetch loop and written both archives of \<^verbatim>\<open>a\<close>,
  5 bytes. It exits with status 0 from the wait, and its trace holds no completion line:
  neither the bytes written nor the elapsed time is reported.
\<close>

theorem backoff_cancel_reports_nothing_counterexample:
  "fst (main (ex_env (during 10) (ex_net (Quota 9))) ex_config ex_world) = Stop (SysExit 0)
   \<and> trace (snd (main (ex_env (during 10) (ex_net (Quota 9))) ex_config ex_world))
     = [Request ''https://api.github.com/search/repositories?q=user:u'' [],
        ClockRead, Log (StartingBackup ''u'' False ''T0''), Makedirs ''/backup/T0'',
        Request ''https://api.github.com/repos/u/a/branches'' [],
        Request ''https://github.com/u/a/archive/refs/heads/main.zip'' [],
        Write ''/backup/T0/a_main.zip'' [1, 2, 3],
        Request ''https://github.com/u/a/archive/refs/heads/dev.zip'' [],
        Write ''/backup/T0/a_dev.zip'' [4, 5],
        Request ''https://api.github.com/repos/u/b/branches'' [],
        Log ApproachingRateLimit, Sleep, Sleep]"
  by (simp add: ex_defs)

subsection \<open>Enumeration comes first\<close>

lemma main_trace_extends:
  assumes "isdir e (dest_arg c)"
    and "make_request e (search_url (user c)) (headers_of c) w = (y, w1)"
    and "main e c w = (x, w')"
  shows "\<exists>evs. trace w' = trace w1 @ evs"
proof (cases y)
  case (Stop hl)
  with main_unfold [OF assms(1,2)] assms(3) show ?thesis by simp
next
  case (Ok r)
  note unfold = main_unfold [OF assms(1,2)]
  show ?thesis
  proof (cases "json r")
    case None
    with unfold assms(3) Ok show ?thesis by simp
  next
    case (Some j)
    show ?thesis
    proof (cases "getitem_str j ''items''")
      case (Inl ex)
      with unfold assms(3) Ok Some show ?thesis by simp
    next
      case (Inr repos)
      let ?w2 = "advance e (emit ClockRead w1)"
      obtain z w3 where shape: "check_shape repos ?w2 = (z, w3)"
        by (cases "check_shape repos ?w2")
      from check_shape_cases [OF shape] consider
        (ok) "z = Ok ()" "w3 = ?w2"
        | (stopped) hl where "z = Stop hl" "\<exists>evs. trace w3 = trace w1 @ evs"
        by auto
      then show ?thesis
      proof cases
        case stopped
        with unfold assms(3) Ok Some Inr shape show ?thesis by simp
      next
        case ok
        define w4 where
          "w4 = emit (Log (StartingBackup (user c) (authenticated c) (now e (tick w1)))) ?w2"
        from unfold assms(3) Ok Some Inr shape ok have
          "backup e c (now e (tick w1)) repos w4 = (x, w')"
          by (simp add: w4_def)
        from conjunct1 [OF backup_result [OF this]] obtain evs where
          "trace w' = trace w4 @ evs" by blast
        then have "trace w' = trace w1 @
            ([ClockRead, Log (StartingBackup (user c) (authenticated c) (now e (tick w1)))] @ evs)"
          by (simp add: w4_def)
        then show ?thesis by blast
      qed
    qed
  qed
qed

text \<open>
  C3, as the program has it. Once the destination check has passed, the first thing a run
  does is issue the repository-list request: the timestamp is captured and the session
  directory created only after it. If that request stops the run, the run ends there:
  the clock has not been read, no directory has been created and no file written. When
  the request fails to connect, times out or is redirected too often, the run ends with
  \<^verbatim>\<open>exit(-1)\<close>, a nonzero status.
\<close>

theorem enumerate_before_init:
  assumes "isdir e (dest_arg c)" and "main e c w = (x, w')"
  shows "(\<exists>rest. trace w' = trace w @ Request (search_url (user c)) (headers_of c) # rest)
       \<and> (\<forall>hl w1. make_request e (search_url (user c)) (headers_of c) w = (Stop hl, w1) \<longrightarrow>
             x = Stop hl \<and> w' = w1
             \<and> clock_reads (trace w') = clock_reads (trace w)
             \<and> makedirs_of (trace w') = makedirs_of (trace w)
             \<and> writes_of (trace w') = writes_of (trace w)
             \<and> files w' = files w)
       \<and> (http_get e (tick w) (search_url (user c)) (headers_of c)
             \<in> {ConnectionError, Timeout, TooManyRedirects} \<longrightarrow>
             x = Stop (SysExit (- 1)) \<and> exit_status x \<noteq> 0)"
proof -
  obtain y w1 where req: "make_request e (search_url (user c)) (headers_of c) w = (y, w1)"
    by (cases "make_request e (search_url (user c)) (headers_of c) w")
  from make_request_effect [OF req] obtain evs where
    "trace w1 = trace w @ Request (search_url (user c)) (headers_of c) # evs"
    by blast
  moreover from main_trace_extends [OF assms(1) req assms(2)] obtain evs' where
    "trace w' = trace w1 @ evs'" by blast
  ultimately have
    "trace w' = trace w @ Request (search_url (user c)) (headers_of c) # (evs @ evs')"
    by simp
  then have first: "\<exists>rest. trace w' = trace w @ Request (search_url (user c)) (headers_of c) # rest"
    by blast
  have stop: "x = Stop hl \<and> w' = w2
      \<and> clock_reads (trace w') = clock_reads (trace w)
      \<and> makedirs_of (trace w') = makedirs_of (trace w)
      \<and> writes_of (trace w') = writes_of (trace w)
      \<and> files w' = files w"
    if "make_request e (search_url (user c)) (headers_of c) w = (Stop hl, w2)" for hl w2
  proof -
    from main_unfold [OF assms(1) that] assms(2) have "x = Stop hl" "w' = w2"
      by simp_all
    with make_request_trace [OF that] show ?thesis by simp
  qed
  have down: "x = Stop (SysExit (- 1)) \<and> exit_status x \<noteq> 0"
    if "http_get e (tick w) (search_url (user c)) (headers_of c)
          \<in> {ConnectionError, Timeout, TooManyRedirects}"
  proof -
    from that have "y = Stop (SysExit (- 1))"
      using req by (auto simp: make_request_def)
    with main_unfold [OF assms(1) req] assms(2) show ?thesis by simp
  qed
  show ?thesis
    using first stop down by blast
qed

text \<open>With the network down, the run is the request and the error line.\<close>

theorem enumerate_before_init_witness:
  "isdir (ex_env never offline) (dest_arg ex_config)
   \<and> main (ex_env never offline) ex_config ex_world
     = (Stop (SysExit (- 1)),
        \<lparr>SIGNINT = False, tick = 1,
         trace = [Request ''https://api.github.com/search/repositories?q=user:u'' [],
                  Log FailedToConnectPlain],
         files = Map.empty\<rparr>)
   \<and> http_get (ex_env never offline) 0 (search_url ''u'') [] = ConnectionError
   \<and> exit_status (fst (main (ex_env never offline) ex_config ex_world)) = 255"
proof -
  have h: "isdir (ex_env never offline) (dest_arg ex_config)"
    by (simp add: ex_env_def ex_config_def)
  have m: "main (ex_env never offline) ex_config ex_world
     = (Stop (SysExit (- 1)),
        \<lparr>SIGNINT = False, tick = 1,
         trace = [Request ''https://api.github.com/search/repositories?q=user:u'' [],
                  Log FailedToConnectPlain],
         files = Map.empty\<rparr>)"
    by (simp add: ex_defs)
  show ?thesis
    using h m enumerate_before_init [OF h m]
    by (simp add: ex_env_def offline_def)
qed

text \<open>
  With the network down the repository-list request is issued and fails, and at no time
  in the run has the clock been read or a directory created: the request does not come
  after them.
\<close>

theorem init_not_before_enumerate_counterexample:
  "requests_of (trace (snd (main (ex_env never offline) ex_config ex_world)))
     = [''https://api.github.com/search/repositories?q=user:u'']
   \<and> clock_reads (trace (snd (main (ex_env never offline) ex_config ex_world))) = 0
   \<and> makedirs_of (trace (snd (main (ex_env never offline) ex_config ex_world))) = []
   \<and> take 2 (trace (snd (main (ex_env never (ex_net NoQuotaHeader)) ex_config ex_world)))
     = [Request ''https://api.github.com/search/repositories?q=user:u'' [], ClockRead]"
  by (simp add: ex_defs)

subsection \<open>An account with no repository\<close>

text \<open>
  C9. The repository-list request succeeds and the \<^verbatim>\<open>items\<close> of its reply is the empty
  list. Then \<^verbatim>\<open>repos[0]\<close> raises IndexError, which the handler for KeyError lets
  through: the run ends with that exception uncaught (exit status 1), right after the
  clock read. Between the request and the clock read there are only events of the
  request itself, so the invalid-response line is not logged; no directory is created,
  no file is written, and the run does not reach its end.
\<close>

theorem empty_repository_list_raises:
  assumes "isdir e (dest_arg c)"
    and "make_request e (search_url (user c)) (headers_of c) w = (Ok r, w1)"
    and "json r = Some j"
    and "getitem_str j ''items'' = Inr (JArr [])"
  shows "main e c w = (Stop (Uncaught IndexError), advance e (emit ClockRead w1))
       \<and> check_shape (JArr []) w1 = (Stop (Uncaught IndexError), w1)
       \<and> exit_status (fst (main e c w)) = 1
       \<and> (\<exists>evs. trace (snd (main e c w))
                  = trace w @ Request (search_url (user c)) (headers_of c) # evs @ [ClockRead]
               \<and> list_all quiet_event evs
               \<and> Log (InvalidResponse (JArr [])) \<notin> set evs)
       \<and> makedirs_of (trace (snd (main e c w))) = makedirs_of (trace w)
       \<and> completed_logs (trace (snd (main e c w))) = completed_logs (trace w)
       \<and> files (snd (main e c w)) = files w"
proof -
  have shape: "check_shape (JArr []) v = (Stop (Uncaught IndexError), v)" for v
    by (simp add: check_shape_def)
  have run: "main e c w = (Stop (Uncaught IndexError), advance e (emit ClockRead w1))"
    using main_unfold [OF assms(1,2)] assms(3,4) shape by simp
  from make_request_effect [OF assms(2)] obtain evs where
    evs: "trace w1 = trace w @ Request (search_url (user c)) (headers_of c) # evs"
      "list_all quiet_event evs"
    by blast
  have "Log (InvalidResponse (JArr [])) \<notin> set evs"
  proof
    assume "Log (InvalidResponse (JArr [])) \<in> set evs"
    with evs(2) have "quiet_event (Log (InvalidResponse (JArr [])))"
      by (auto simp: list_all_iff)
    then show False by simp
  qed
  with evs have "\<exists>evs. trace (snd (main e c w))
                  = trace w @ Request (search_url (user c)) (headers_of c) # evs @ [ClockRead]
               \<and> list_all quiet_event evs
               \<and> Log (InvalidResponse (JArr [])) \<notin> set evs"
    using run by auto
  then show ?thesis
    using run shape make_request_trace [OF assms(2)] by simp
qed

theorem empty_repository_list_raises_witness:
  "isdir (ex_env never empty_account) (dest_arg ex_config)
   \<and> fst (make_request (ex_env never empty_account) (search_url (user ex_config))
        (headers_of ex_config) ex_world)
     = Ok \<lparr>status_code = 200, remaining = NoQuotaHeader, body_text = [], content = [],
          json = Some (JObj [(''items'', JArr [])])\<rparr>
   \<and> getitem_str (JObj [(''items'', JArr [])]) ''items'' = Inr (JArr [])
   \<and> main (ex_env never empty_account) ex_config ex_world
     = (Stop (Uncaught IndexError),
        \<lparr>SIGNINT = False, tick = 2,
         trace = [Request ''https://api.github.com/search/repositories?q=user:u'' [],
                  ClockRead],
         files = Map.empty\<rparr>)"
proof -
  let ?e = "ex_env never empty_account"
  let ?r = "\<lparr>status_code = 200, remaining = NoQuotaHeader, body_text = [], content = [],
          json = Some (JObj [(''items'', JArr [])])\<rparr>"
  have h1: "isdir ?e (dest_arg ex_config)"
    by (simp add: ex_env_def ex_config_def)
  obtain w1 where h2:
    "make_request ?e (search_url (user ex_config)) (headers_of ex_config) ex_world = (Ok ?r, w1)"
    by (simp add: ex_defs)
  have w1: "w1 = \<lparr>SIGNINT = False, tick = 1,
         trace = [Request ''https://api.github.com/search/repositories?q=user:u'' []],
         files = Map.empty\<rparr>"
    using h2 by (simp add: ex_defs)
  have h3: "json ?r = Some (JObj [(''items'', JArr [])])" by simp
  have h4: "getitem_str (JObj [(''items'', JArr [])]) ''items'' = Inr (JArr [])" by simp
  show ?thesis
    using h1 h2 h4 empty_repository_list_raises [OF h1 h2 h3 h4]
    by (simp add: w1 ex_env_def never_def advance_def emit_def)
qed

subsection \<open>Cancellation and the outer loop\<close>

text \<open>
  What holds of the loop once the flag is set: no archive is requested and no file is
  written or changed. But \<^verbatim>\<open>break\<close> leaves the inner loop only, and in all-branches
  mode the outer loop goes on to request the branch list of each remaining repository.
\<close>

lemma cancelled_process_repo:
  assumes "SIGNINT w" and "process_repo e c ts repo bt w = (x, w')"
  shows "files w' = files w \<and> writes_of (trace w') = writes_of (trace w) \<and> SIGNINT w'
     \<and> (\<exists>us. requests_of (trace w') = requests_of (trace w) @ map (branches_url (user c)) us
           \<and> (\<not> all_branches c \<longrightarrow> us = []))
     \<and> (\<forall>bt'. x = Ok bt' \<longrightarrow> bt' = bt)"
proof -
  have here: "files w = files w \<and> writes_of (trace w) = writes_of (trace w) \<and> SIGNINT w
     \<and> (\<exists>us. requests_of (trace w) = requests_of (trace w) @ map (branches_url (user c)) us
           \<and> (\<not> all_branches c \<longrightarrow> us = []))"
    using assms(1) by simp
  show ?thesis
  proof (cases "\<exists>rn db. getitem_str repo ''name'' = Inr rn
      \<and> getitem_str repo ''default_branch'' = Inr db")
    case False
    with assms(2) have "w' = w" "\<forall>bt'. x \<noteq> Ok bt'"
      by (auto simp: process_repo_def split: sum.splits)
    with here show ?thesis by simp
  next
    case True
    then obtain rn db where rn: "getitem_str repo ''name'' = Inr rn"
      and db: "getitem_str repo ''default_branch'' = Inr db"
      by blast
    show ?thesis
    proof (cases "all_branches c")
      case False
      with assms rn db have "x = Ok bt" "w' = w"
        by (simp_all add: process_repo_def cancelled_fetch_branches)
      with here show ?thesis by simp
    next
      case True
      obtain y w1 where
        req: "make_request e (branches_url (user c) (str_of e rn)) (headers_of c) w = (y, w1)"
        by (cases "make_request e (branches_url (user c) (str_of e rn)) (headers_of c) w")
      have flag: "SIGNINT w1"
        using make_request_flag [OF req assms(1)] .
      have "w' = w1 \<and> (\<forall>bt'. x = Ok bt' \<longrightarrow> bt' = bt)"
        using assms(2) rn db True req flag
        by (auto simp: process_repo_def cancelled_fetch_branches
            split: res.splits option.splits sum.splits)
      moreover have
        "requests_of (trace w1) = requests_of (trace w) @
           map (branches_url (user c)) [str_of e rn]"
        using make_request_trace(1) [OF req] by simp
      then have "\<exists>us. requests_of (trace w1) = requests_of (trace w) @
           map (branches_url (user c)) us \<and> (\<not> all_branches c \<longrightarrow> us = [])"
        using True by blast
      ultimately show ?thesis
        using make_request_trace(2,6) [OF req] flag by simp
    qed
  qed
qed

lemma cancelled_process_repo_lists_branches:
  assumes "SIGNINT w" and "all_branches c"
    and "getitem_str repo ''name'' = Inr rn" and "getitem_str repo ''default_branch'' = Inr db"
    and "process_repo e c ts repo bt w = (x, w')"
  shows "requests_of (trace w') = requests_of (trace w) @ [branches_url (user c) (str_of e rn)]"
proof -
  obtain y w1 where
    req: "make_request e (branches_url (user c) (str_of e rn)) (headers_of c) w = (y, w1)"
    by (cases "make_request e (branches_url (user c) (str_of e rn)) (headers_of c) w")
  have "SIGNINT w1"
    using make_request_flag [OF req assms(1)] .
  with assms req have "w' = w1"
    by (auto simp: process_repo_def cancelled_fetch_branches
        split: res.splits option.splits sum.splits)
  with make_request_trace(1) [OF req] show ?thesis by simp
qed

lemma cancelled_fetch_repos:
  "SIGNINT w \<Longrightarrow> fetch_repos e c ts rs bt w = (x, w') \<Longrightarrow>
     files w' = files w \<and> writes_of (trace w') = writes_of (trace w) \<and> SIGNINT w'
     \<and> (\<exists>us. requests_of (trace w') = requests_of (trace w) @ map (branches_url (user c)) us
           \<and> (\<not> all_branches c \<longrightarrow> us = []))
     \<and> (\<forall>bt'. x = Ok bt' \<longrightarrow> bt' = bt)"
proof (induction rs arbitrary: w)
  case Nil
  then show ?case by auto
next
  case (Cons repo rs)
  obtain y w1 where first: "process_repo e c ts repo bt w = (y, w1)"
    by (cases "process_repo e c ts repo bt w")
  from cancelled_process_repo [OF Cons.prems(1) first] obtain us where one:
    "files w1 = files w" "writes_of (trace w1) = writes_of (trace w)" "SIGNINT w1"
    "requests_of (trace w1) = requests_of (trace w) @ map (branches_url (user c)) us"
    "\<not> all_branches c \<longrightarrow> us = []" "\<forall>bt'. y = Ok bt' \<longrightarrow> bt' = bt"
    by blast
  show ?case
  proof (cases y)
    case (Stop hl)
    with Cons.prems(2) first have "x = Stop hl" "w' = w1" by simp_all
    with one show ?thesis by auto
  next
    case (Ok bt1)
    with one(6) have "bt1 = bt" by simp
    with Cons.prems(2) first Ok have "fetch_repos e c ts rs bt w1 = (x, w')" by simp
    from Cons.IH [OF one(3) this] obtain us' where rest:
      "files w' = files w1" "writes_of (trace w') = writes_of (trace w1)" "SIGNINT w'"
      "requests_of (trace w') = requests_of (trace w1) @ map (branches_url (user c)) us'"
      "\<not> all_branches c \<longrightarrow> us' = []" "\<forall>bt'. x = Ok bt' \<longrightarrow> bt' = bt"
      by blast
    have "requests_of (trace w') = requests_of (trace w) @ map (branches_url (user c)) (us @ us')"
      using one(4) rest(4) by simp
    moreover have "\<not> all_branches c \<longrightarrow> us @ us' = []"
      using one(5) rest(5) by simp
    ultimately have "\<exists>us. requests_of (trace w') = requests_of (trace w) @
        map (branches_url (user c)) us \<and> (\<not> all_branches c \<longrightarrow> us = [])"
      by blast
    with one rest show ?thesis by simp
  qed
qed

text \<open>
  C1 says that once cancellation has been requested the fetch loop stops entirely at the
  next branch-iteration check: no further branch is fetched, no further branch list is
  requested, and the files written stay as they are. This run, in all-branches mode
  with the signal delivered during the download of the first branch of \<^verbatim>\<open>a\<close>, departs
  from it in one point. The download under way is written in full; the check before the
  second branch of \<^verbatim>\<open>a\<close> sees the flag and leaves the inner loop, and that branch is
  never requested. But the outer loop goes on to \<^verbatim>\<open>b\<close> and requests its branch list,
  after the cancellation has been seen; only then does the run report its 3 bytes and
  end.
\<close>

theorem cancelled_run_lists_next_repository:
  "main (ex_env (during 4) (ex_net NoQuotaHeader)) ex_config ex_world
   = (Ok (),
      \<lparr>SIGNINT = True, tick = 9,
       trace =
         [Request ''https://api.github.com/search/repositories?q=user:u'' [],
          ClockRead, Log (StartingBackup ''u'' False ''T0''), Makedirs ''/backup/T0'',
          Request ''https://api.github.com/repos/u/a/branches'' [],
          Request ''https://github.com/u/a/archive/refs/heads/main.zip'' [],
          Write ''/backup/T0/a_main.zip'' [1, 2, 3],
          Request ''https://api.github.com/repos/u/b/branches'' [],
          ClockRead, ClockRead, Log (BackupCompleted ''T1'' 3 ''/backup/'' ''T1'' ''T0'')],
       files = [''/backup/T0/a_main.zip'' \<mapsto> [1, 2, 3]]\<rparr>)"
  by (simp add: ex_defs)

end
